theory Spec2Isabelle
  imports Main
begin

section \<open>Values of the script\<close>

text \<open>
  A Python \<open>str\<close> is a sequence of Unicode code points, so it is a list of naturals here;
  \<open>lit\<close> turns an ASCII literal into such a sequence. \<open>bytes\<close> are naturals below 256.
  A value that may be Python's \<open>None\<close> is an \<open>option\<close>.
\<close>

type_synonym pystr = "nat list"
type_synonym bytes = "nat list"

definition lit :: "string \<Rightarrow> pystr" where
  "lit s = map of_char s"

text \<open>The exceptions the script can meet. The first five are classes of
  \<open>requests.exceptions\<close>, all of them subclasses of \<open>RequestException\<close> there
  (\<open>MissingSchema\<close>, \<open>InvalidSchema\<close> and \<open>InvalidURL\<close> are what \<open>requests.get\<close> raises for
  a URL it cannot make sense of). \<open>LocationParseError\<close> is urllib3's: it is not a
  \<open>RequestException\<close>, and \<open>requests\<close> lets it through as it is when the connection pool
  rejects a host that \<open>requests\<close> itself accepted (\<open>http://a..b/\<close>). \<open>RetryError\<close> is
  tenacity's, and carries the exception of the last attempt.\<close>

datatype exn =
    ConnectionError
  | Timeout
  | MissingSchema
  | InvalidSchema
  | InvalidURL
  | APIError
  | SMTPException
  | AttributeError
  | ParseError
  | UnicodeEncodeError
  | FileNotFoundError
  | LocationParseError
  | OtherError pystr
  | RetryError exn

fun is_RequestException :: "exn \<Rightarrow> bool" where
  "is_RequestException ConnectionError = True"
| "is_RequestException Timeout = True"
| "is_RequestException MissingSchema = True"
| "is_RequestException InvalidSchema = True"
| "is_RequestException InvalidURL = True"
| "is_RequestException _ = False"

fun is_APIError :: "exn \<Rightarrow> bool" where
  "is_APIError APIError = True"
| "is_APIError _ = False"

fun is_SMTPException :: "exn \<Rightarrow> bool" where
  "is_SMTPException SMTPException = True"
| "is_SMTPException _ = False"

subsection \<open>XML trees\<close>

text \<open>An \<open>xml.etree.ElementTree.Element\<close>: its tag, its text (\<open>None\<close> when the element has
  no character data before its first child) and its children.\<close>

datatype element = Element (tag: pystr) (text_of: "pystr option") (children: "element list")

text \<open>\<open>Element.iter()\<close>: the element and all its descendants, in document order.\<close>

fun iter :: "element \<Rightarrow> element list" where
  "iter (Element t x cs) = Element t x cs # concat (map iter cs)"

text \<open>The path \<open>.//name\<close> selects the descendants with that tag, in document order, the
  element itself excluded; \<open>findall\<close> returns all of them, \<open>find\<close> the first or \<open>None\<close>.\<close>

definition findall :: "pystr \<Rightarrow> element \<Rightarrow> element list" where
  "findall name e = filter (\<lambda>d. tag d = name) (concat (map iter (children e)))"

definition find_first :: "pystr \<Rightarrow> element \<Rightarrow> element option" where
  "find_first name e = (case findall name e of [] \<Rightarrow> None | d # _ \<Rightarrow> Some d)"

text \<open>The content of a response stands for what \<open>ET.fromstring\<close> makes of its bytes: a
  tree, or a \<open>ParseError\<close>.\<close>

datatype xml_content = Malformed | Document element

fun fromstring :: "xml_content \<Rightarrow> exn + element" where
  "fromstring Malformed = Inl ParseError"
| "fromstring (Document root) = Inr root"

record response =
  status_code :: nat
  content :: xml_content

subsection \<open>The spreadsheet\<close>

text \<open>A worksheet is a grid of \<open>row_count\<close> rows; \<open>cell r c\<close> is the text of the cell in row
  \<open>r\<close> and column \<open>c\<close> (both from 1, column 1 being A), empty when the cell is blank.
  A range in A1 notation is a rectangle of columns and rows, open downwards when the last
  row is not given: \<open>A2:H\<close> is \<open>GridRange 2 1 8 None\<close>.\<close>

record worksheet =
  row_count :: nat
  cell :: "nat \<Rightarrow> nat \<Rightarrow> pystr"

datatype grid_range = GridRange (first_row: nat) (first_col: nat) (last_col: nat) (last_row: "nat option")

type_synonym row = "pystr option list"

datatype api_op =
    ColValues nat
  | BatchClear "grid_range list"
  | BatchUpdate "(grid_range \<times> row list) list"
  | GetRange grid_range

subsection \<open>Mail\<close>

text \<open>What a part of a message carries: bytes that the model knows, or the content of the
  log file as it is when the message is built. That file is the root logger's, at level
  \<open>DEBUG\<close>: beside the lines of the script's own logger it holds those of the libraries
  (urllib3 logs every connection there), which the model does not follow, so the content
  is left open and the part only says which file it is.\<close>

datatype payload = FileBytes bytes | LogFile pystr

record attachment =
  filename :: pystr
  payload :: payload

record message =
  msg_From :: pystr
  msg_To :: pystr
  msg_Subject :: pystr
  msg_Cc :: pystr
  msg_body :: pystr
  msg_parts :: "attachment list"

record sent_mail =
  envelope_from :: pystr
  envelope_to :: pystr
  envelope_msg :: message

subsection \<open>The world and its environment\<close>

text \<open>Everything the script does to the outside is an event of the \<open>trace\<close>, in the order
  it happens. The world holds the remote worksheet, the local files, the lines that the
  script's own logger has written (\<open>log\<close>), the mail that left, and the trace.\<close>

datatype event =
    HttpGet pystr
  | Sleep nat
  | Api api_op
  | Unlink pystr
  | OpenWrite pystr
  | SmtpSession

record world =
  sheet :: worksheet
  files :: "pystr \<rightharpoonup> bytes"
  log :: "(string \<times> pystr) list"
  outbox :: "sent_mail list"
  trace :: "event list"

text \<open>What gspread's \<open>get\<close> returns for a range in which the service finds no values:
  \<open>[[]]\<close>, one row without cells, in the releases 6.x of the library, and \<open>[]\<close> in the
  releases before.\<close>

datatype empty_range = NoRows | OneEmptyRow

fun empty_rows :: "empty_range \<Rightarrow> pystr list list" where
  "empty_rows NoRows = []"
| "empty_rows OneEmptyRow = [[]]"

text \<open>What the network, the spreadsheet service and the mail relay answer is not the
  script's: the environment decides, for the action that would be the \<open>n\<close>-th event of
  the run, whether it fails and with which exception (\<open>network\<close> answers a request whose
  URL has passed the first check of \<open>requests\<close>, see \<open>http\<close> below). It also fixes two
  things that depend on the libraries installed: whether urllib3's \<open>parse_url\<close> accepts
  a text (\<open>url_parses\<close>), and what \<open>get\<close> returns for a range without values
  (\<open>no_values\<close>).\<close>

record env =
  network :: "nat \<Rightarrow> pystr \<Rightarrow> exn + response"
  url_parses :: "pystr \<Rightarrow> bool"
  api :: "nat \<Rightarrow> api_op \<Rightarrow> exn option"
  smtp :: "nat \<Rightarrow> exn option"
  no_values :: empty_range

record config =
  sender_email :: pystr
  sender_password :: pystr
  receiver_email :: pystr
  cc_list :: "pystr list"
  email_subject :: pystr
  email_body :: pystr
  CURRENT_DATE :: pystr
  cwd :: pystr

definition emit :: "event \<Rightarrow> world \<Rightarrow> world" where
  "emit ev w = w\<lparr>trace := trace w @ [ev]\<rparr>"

definition logger_info :: "pystr \<Rightarrow> world \<Rightarrow> world" where
  "logger_info m w = w\<lparr>log := log w @ [(''INFO'', m)]\<rparr>"

definition logger_warning :: "pystr \<Rightarrow> world \<Rightarrow> world" where
  "logger_warning m w = w\<lparr>log := log w @ [(''WARNING'', m)]\<rparr>"

section \<open>The record parser\<close>

text \<open>\<open>str(n)\<close> for a length, in decimal.\<close>

function str_nat :: "nat \<Rightarrow> pystr" where
  "str_nat n = (if n < 10 then [48 + n] else str_nat (n div 10) @ [48 + n mod 10])"
  by pat_completeness auto
termination
  by (relation "measure id") auto

definition FILLER_TITLE :: pystr where
  "FILLER_TITLE = lit ''Zako'' @ [324] @ lit ''czenie dnia''"

text \<open>\<open>if x is None: logger.warning(...)\<close>\<close>

definition warn_if_None :: "element option \<Rightarrow> string \<Rightarrow> world \<Rightarrow> world" where
  "warn_if_None x m w = (case x of None \<Rightarrow> logger_warning (lit m) w | Some _ \<Rightarrow> w)"

text \<open>\<open>x.text if x is not None else ""\<close>\<close>

definition text_or_empty :: "element option \<Rightarrow> pystr option" where
  "text_or_empty x = (case x of None \<Rightarrow> Some [] | Some e \<Rightarrow> text_of e)"

text \<open>The body of the loop over the records, below the test for filler programs: the
  seven optional tags are looked up, a warning is logged for each missing one, and the
  row is built.\<close>

definition data_row_of :: "element \<Rightarrow> pystr option \<Rightarrow> world \<Rightarrow> row \<times> world" where
  "data_row_of rec title w =
     (let tx_day = find_first (lit ''PR_AIRDATE'') rec;
          tx_time = find_first (lit ''START'') rec;
          epg_description = find_first (lit ''EPG'') rec;
          episode_id = find_first (lit ''PR_CODE'') rec;
          prod_year = find_first (lit ''JAHR'') rec;
          rating = find_first (lit ''PLRATING'') rec;
          genre = find_first (lit ''TEMATYKA'') rec;
          w1 = warn_if_None tx_day ''Missing tag: PR_AIRDATE. TX DATE WILL BE EMPTY, CHECK OUTPUT!'' w;
          w2 = warn_if_None tx_time ''Missing tag: START. TX TIME WILL BE EMPTY, CHECK OUTPUT!'' w1;
          w3 = warn_if_None epg_description ''Missing tag: EPG. EPG description will be empty.'' w2;
          w4 = warn_if_None episode_id ''Missing tag: PR_CODE. Episode ID will be empty.'' w3;
          w5 = warn_if_None prod_year ''Missing tag: JAHR. Production year field will be empty.'' w4;
          w6 = warn_if_None rating ''Missing tag: PLRATING. Ratings field will be empty.'' w5;
          w7 = warn_if_None genre ''Missing tag: TEMATYKA. Genre field will be empty.'' w6;
          data_row = [
            text_or_empty tx_day,
            text_or_empty tx_time,
            title,
            text_or_empty epg_description,
            text_or_empty episode_id,
            text_or_empty prod_year,
            text_or_empty rating,
            text_or_empty genre]
      in (data_row, w7))"

text \<open>The loop over the records, with \<open>parsed_results\<close> as accumulator.
  \<open>record.find('.//TITEL').text\<close> raises \<open>AttributeError\<close> when \<open>find\<close> returns \<open>None\<close>;
  a filler program is skipped by \<open>continue\<close>.\<close>

fun parse_records :: "element list \<Rightarrow> row list \<Rightarrow> world \<Rightarrow> (exn + row list) \<times> world" where
  "parse_records [] parsed_results w = (Inr parsed_results, w)"
| "parse_records (rec # records) parsed_results w =
     (case find_first (lit ''TITEL'') rec of
        None \<Rightarrow> (Inl AttributeError, w)
      | Some titel \<Rightarrow>
          if text_of titel = Some FILLER_TITLE then parse_records records parsed_results w
          else parse_records records
                 (parsed_results @ [fst (data_row_of rec (text_of titel) w)])
                 (snd (data_row_of rec (text_of titel) w)))"

definition parse_xml_content :: "xml_content \<Rightarrow> world \<Rightarrow> (exn + row list) \<times> world" where
  "parse_xml_content xml_content w =
     (case fromstring xml_content of
        Inl e \<Rightarrow> (Inl e, w)
      | Inr root \<Rightarrow>
          let records = findall (lit ''prrecord'') root;
              w1 = logger_info (lit ''Count of records: '' @ str_nat (length records)) w
          in parse_records records [] w1)"

subsection \<open>What the parser is to compute\<close>

text \<open>The columns of a row, by the tag each is read from; a record's title and whether
  it is a filler program; the row of a record (for each column, the empty string when the
  tag is missing, the text of its first element otherwise, which is \<open>None\<close> for an
  element without text); and the warnings a record gives rise to, one for each missing
  optional tag.\<close>

definition COLUMN_TAGS :: "string list" where
  "COLUMN_TAGS = [''PR_AIRDATE'', ''START'', ''TITEL'', ''EPG'', ''PR_CODE'', ''JAHR'', ''PLRATING'', ''TEMATYKA'']"

definition has_title :: "element \<Rightarrow> bool" where
  "has_title rec = (find_first (lit ''TITEL'') rec \<noteq> None)"

definition title_of :: "element \<Rightarrow> pystr option" where
  "title_of rec = (case find_first (lit ''TITEL'') rec of None \<Rightarrow> None | Some t \<Rightarrow> text_of t)"

definition is_filler :: "element \<Rightarrow> bool" where
  "is_filler rec = (title_of rec = Some FILLER_TITLE)"

definition row_of :: "element \<Rightarrow> row" where
  "row_of rec = map (\<lambda>name. text_or_empty (find_first (lit name) rec)) COLUMN_TAGS"

definition MISSING_TAG_WARNINGS :: "(string \<times> string) list" where
  "MISSING_TAG_WARNINGS = [
     (''PR_AIRDATE'', ''Missing tag: PR_AIRDATE. TX DATE WILL BE EMPTY, CHECK OUTPUT!''),
     (''START'', ''Missing tag: START. TX TIME WILL BE EMPTY, CHECK OUTPUT!''),
     (''EPG'', ''Missing tag: EPG. EPG description will be empty.''),
     (''PR_CODE'', ''Missing tag: PR_CODE. Episode ID will be empty.''),
     (''JAHR'', ''Missing tag: JAHR. Production year field will be empty.''),
     (''PLRATING'', ''Missing tag: PLRATING. Ratings field will be empty.''),
     (''TEMATYKA'', ''Missing tag: TEMATYKA. Genre field will be empty.'')]"

definition warnings_of :: "element \<Rightarrow> (string \<times> pystr) list" where
  "warnings_of rec =
     concat (map (\<lambda>(name, m). case find_first (lit name) rec of
                                  None \<Rightarrow> [(''WARNING'', lit m)] | Some _ \<Rightarrow> [])
               MISSING_TAG_WARNINGS)"

text \<open>Sample inputs.\<close>

definition example_world :: world where
  "example_world = \<lparr>sheet = \<lparr>row_count = 3, cell = (\<lambda>r c. [])\<rparr>, files = Map.empty, log = [],
     outbox = [], trace = []\<rparr>"

definition leaf :: "string \<Rightarrow> string \<Rightarrow> element" where
  "leaf name s = Element (lit name) (Some (lit s)) []"

definition example_feed :: element where
  "example_feed = Element (lit ''prdata'') None [
     Element (lit ''prrecord'') None
       [leaf ''PR_AIRDATE'' ''20240101'', leaf ''START'' ''1000'', leaf ''TITEL'' ''Show A'',
        leaf ''EPG'' ''Desc'', leaf ''PR_CODE'' ''EP1'', leaf ''JAHR'' ''2020'',
        leaf ''PLRATING'' ''PG'', leaf ''TEMATYKA'' ''Drama''],
     Element (lit ''prrecord'') None
       [Element (lit ''TITEL'') (Some FILLER_TITLE) []],
     Element (lit ''prrecord'') None
       [leaf ''TITEL'' ''Show B'', Element (lit ''EPG'') None [], leaf ''START'' ''1100'']]"

definition untitled_feed :: element where
  "untitled_feed = Element (lit ''prdata'') None [
     Element (lit ''prrecord'') None [leaf ''TITEL'' ''Show A''],
     Element (lit ''prrecord'') None [leaf ''START'' ''1000'']]"

definition example_rows :: "row list" where
  "example_rows =
     [[Some (lit ''20240101''), Some (lit ''1000''), Some (lit ''Show A''), Some (lit ''Desc''),
       Some (lit ''EP1''), Some (lit ''2020''), Some (lit ''PG''), Some (lit ''Drama'')],
      [Some [], Some (lit ''1100''), Some (lit ''Show B''), None, Some [], Some [], Some [], Some []]]"

section \<open>Retrying, and the feed fetcher\<close>

text \<open>\<open>time.sleep\<close>, as the retry wrapper calls it between attempts.\<close>

definition sleep :: "nat \<Rightarrow> world \<Rightarrow> world" where
  "sleep seconds w = emit (Sleep seconds) w"

text \<open>What the decorator \<open>@retry(stop=stop_after_attempt(m), wait=wait_fixed(d),
  retry=retry_if_exception_type(T))\<close> of tenacity makes of a function \<open>fn\<close>, from attempt
  number \<open>n\<close> on (a call starts at attempt 1). The result of an attempt that returns is
  returned. An exception that is not of type \<open>T\<close> is raised again as it is. For one of
  type \<open>T\<close>: when the attempt number has reached \<open>m\<close> the wrapper stops and, \<open>reraise\<close>
  being left at its default \<open>False\<close>, raises \<open>RetryError\<close> from the exception; otherwise
  it sleeps \<open>d\<close> seconds and makes the next attempt.\<close>

function retry_call ::
  "nat \<Rightarrow> nat \<Rightarrow> (exn \<Rightarrow> bool) \<Rightarrow> (world \<Rightarrow> (exn + 'a) \<times> world) \<Rightarrow> nat \<Rightarrow> world
     \<Rightarrow> (exn + 'a) \<times> world" where
  "retry_call max_attempt_number wait_fixed retry_if fn attempt_number w =
     (case fn w of
        (Inr result, w') \<Rightarrow> (Inr result, w')
      | (Inl e, w') \<Rightarrow>
          if \<not> retry_if e then (Inl e, w')
          else if attempt_number \<ge> max_attempt_number then (Inl (RetryError e), w')
          else retry_call max_attempt_number wait_fixed retry_if fn (Suc attempt_number)
                 (sleep wait_fixed w'))"
  by pat_completeness auto
termination
  by (relation "measure (\<lambda>(m, d, p, fn, n, w). m - n)") auto

text \<open>What \<open>requests.get(url)\<close> gives when the call is the \<open>n\<close>-th event. Before anything is
  sent, \<open>PreparedRequest.prepare_url\<close> looks at the text: one that contains no colon (code
  point 58) cannot have a scheme; \<open>parse_url\<close> either rejects it, and \<open>requests\<close> raises
  \<open>InvalidURL\<close>, or finds no scheme in it, and \<open>requests\<close> raises \<open>MissingSchema\<close>. For every
  other text the answer is the environment's: a response, an exception of \<open>requests\<close>, or
  one that \<open>requests\<close> lets through.\<close>

definition http :: "env \<Rightarrow> nat \<Rightarrow> pystr \<Rightarrow> exn + response" where
  "http env n url =
     (if 58 \<notin> set url then Inl (if url_parses env url then MissingSchema else InvalidURL)
      else network env n url)"

text \<open>\<open>requests.get(url)\<close>: one event.\<close>

definition requests_get :: "env \<Rightarrow> pystr \<Rightarrow> world \<Rightarrow> (exn + response) \<times> world" where
  "requests_get env url w = (http env (length (trace w)) url, emit (HttpGet url) w)"

text \<open>The body of \<open>fetch_url\<close>, and \<open>fetch_url\<close> as decorated.\<close>

definition fetch_url_body :: "env \<Rightarrow> pystr \<Rightarrow> world \<Rightarrow> (exn + response) \<times> world" where
  "fetch_url_body env url w =
     (case requests_get env url w of
        (Inl e, w1) \<Rightarrow> (Inl e, w1)
      | (Inr response, w1) \<Rightarrow> (Inr response, logger_info (lit ''Processing URL: '' @ url) w1))"

definition fetch_url :: "env \<Rightarrow> pystr \<Rightarrow> world \<Rightarrow> (exn + response) \<times> world" where
  "fetch_url env url w = retry_call 5 120 is_RequestException (fetch_url_body env url) 1 w"

section \<open>The worksheet and the sheet synchronizer\<close>

text \<open>The calls of gspread the script makes. Each is one request, hence one event; the
  environment may fail it with any exception. What a request that is served does to the
  grid follows the Sheets API: clearing a range blanks its cells; an update writes the
  values of each entry from the top left cell of its range, a \<open>None\<close> (JSON null) leaving
  its cell as it is, and the whole request is refused (\<open>APIError\<close>, nothing written) when
  an entry has more values than its range holds or reaches below the grid; reading a range
  returns its rows without the empty cells at the end of a row and without the empty rows
  at the end of the range, and no values at all for an empty range, for which \<open>get\<close>
  returns what the library has for that case.\<close>

definition in_range :: "grid_range \<Rightarrow> nat \<Rightarrow> nat \<Rightarrow> bool" where
  "in_range g r c =
     (first_row g \<le> r \<and> (case last_row g of None \<Rightarrow> True | Some l \<Rightarrow> r \<le> l)
      \<and> first_col g \<le> c \<and> c \<le> last_col g)"

definition clear_ranges :: "grid_range list \<Rightarrow> worksheet \<Rightarrow> worksheet" where
  "clear_ranges gs s =
     s\<lparr>cell := (\<lambda>r c. if list_ex (\<lambda>g. in_range g r c) gs then [] else cell s r c)\<rparr>"

fun write_row :: "nat \<Rightarrow> nat \<Rightarrow> row \<Rightarrow> (nat \<Rightarrow> nat \<Rightarrow> pystr) \<Rightarrow> (nat \<Rightarrow> nat \<Rightarrow> pystr)" where
  "write_row r c [] g = g"
| "write_row r c (v # vs) g =
     write_row r (Suc c) vs (case v of None \<Rightarrow> g | Some s \<Rightarrow> g(r := (g r)(c := s)))"

fun write_values :: "nat \<Rightarrow> nat \<Rightarrow> row list \<Rightarrow> (nat \<Rightarrow> nat \<Rightarrow> pystr) \<Rightarrow> (nat \<Rightarrow> nat \<Rightarrow> pystr)" where
  "write_values r c [] g = g"
| "write_values r c (vs # rows) g = write_values (Suc r) c rows (write_row r c vs g)"

definition fits :: "worksheet \<Rightarrow> grid_range \<times> row list \<Rightarrow> bool" where
  "fits s u =
     ((case last_row (fst u) of None \<Rightarrow> True
         | Some l \<Rightarrow> first_row (fst u) + length (snd u) \<le> Suc l)
      \<and> first_row (fst u) + length (snd u) \<le> Suc (row_count s)
      \<and> list_all (\<lambda>vs. first_col (fst u) + length vs \<le> Suc (last_col (fst u))) (snd u))"

definition apply_update :: "worksheet \<Rightarrow> grid_range \<times> row list \<Rightarrow> worksheet" where
  "apply_update s u =
     s\<lparr>cell := write_values (first_row (fst u)) (first_col (fst u)) (snd u) (cell s)\<rparr>"

definition strip_trailing :: "('a \<Rightarrow> bool) \<Rightarrow> 'a list \<Rightarrow> 'a list" where
  "strip_trailing P xs = rev (dropWhile P (rev xs))"

definition range_values :: "worksheet \<Rightarrow> grid_range \<Rightarrow> pystr list list" where
  "range_values s g =
     strip_trailing (\<lambda>vs. vs = [])
       (map (\<lambda>r. strip_trailing (\<lambda>v. v = []) (map (cell s r) [first_col g ..< Suc (last_col g)]))
          [first_row g ..< Suc (case last_row g of None \<Rightarrow> row_count s
                                  | Some l \<Rightarrow> min l (row_count s))])"

text \<open>What gspread's \<open>get\<close> returns for a range: the values the service finds there or,
  when it finds none, what the installed release makes of that.\<close>

definition values_of :: "env \<Rightarrow> worksheet \<Rightarrow> grid_range \<Rightarrow> pystr list list" where
  "values_of env s g = (if range_values s g = [] then empty_rows (no_values env) else range_values s g)"

definition batch_clear :: "env \<Rightarrow> grid_range list \<Rightarrow> world \<Rightarrow> (exn + unit) \<times> world" where
  "batch_clear env gs w =
     (case api env (length (trace w)) (BatchClear gs) of
        Some e \<Rightarrow> (Inl e, emit (Api (BatchClear gs)) w)
      | None \<Rightarrow> (Inr (), emit (Api (BatchClear gs)) (w\<lparr>sheet := clear_ranges gs (sheet w)\<rparr>)))"

definition batch_update :: "env \<Rightarrow> (grid_range \<times> row list) list \<Rightarrow> world \<Rightarrow> (exn + unit) \<times> world" where
  "batch_update env us w =
     (case api env (length (trace w)) (BatchUpdate us) of
        Some e \<Rightarrow> (Inl e, emit (Api (BatchUpdate us)) w)
      | None \<Rightarrow>
          if list_all (fits (sheet w)) us
          then (Inr (), emit (Api (BatchUpdate us)) (w\<lparr>sheet := foldl apply_update (sheet w) us\<rparr>))
          else (Inl APIError, emit (Api (BatchUpdate us)) w))"

definition sheet_get :: "env \<Rightarrow> grid_range \<Rightarrow> world \<Rightarrow> (exn + pystr list list) \<times> world" where
  "sheet_get env g w =
     (case api env (length (trace w)) (GetRange g) of
        Some e \<Rightarrow> (Inl e, emit (Api (GetRange g)) w)
      | None \<Rightarrow> (Inr (values_of env (sheet w) g), emit (Api (GetRange g)) w))"

definition col_values :: "env \<Rightarrow> nat \<Rightarrow> world \<Rightarrow> (exn + pystr list) \<times> world" where
  "col_values env n w =
     (case api env (length (trace w)) (ColValues n) of
        Some e \<Rightarrow> (Inl e, emit (Api (ColValues n)) w)
      | None \<Rightarrow>
          (Inr (strip_trailing (\<lambda>v. v = []) (map (\<lambda>r. cell (sheet w) r n) [1 ..< Suc (row_count (sheet w))])),
           emit (Api (ColValues n)) w))"

text \<open>The ranges the script names: \<open>"A2:H"\<close> and \<open>f"A{i}:H{i}"\<close>.\<close>

definition A2_H :: grid_range where
  "A2_H = GridRange 2 1 8 None"

definition A_H_row :: "nat \<Rightarrow> grid_range" where
  "A_H_row i = GridRange i 1 8 (Some i)"

text \<open>The list \<open>batch_update\<close> that the loop of \<open>update_google_sheet\<close> builds: the rows of
  the data, counted from 2, each for the range \<open>A{i}:H{i}\<close> of its number.\<close>

definition sheet_updates :: "row list \<Rightarrow> (grid_range \<times> row list) list" where
  "sheet_updates data_to_update = map (\<lambda>(i, vs). (A_H_row i, [vs])) (enumerate 2 data_to_update)"

text \<open>The body of \<open>update_google_sheet\<close>, and the function as decorated. It returns
  nothing.\<close>

definition update_google_sheet_body :: "env \<Rightarrow> row list \<Rightarrow> world \<Rightarrow> (exn + unit) \<times> world" where
  "update_google_sheet_body env data_to_update w =
     (case batch_clear env [A2_H] w of
        (Inl e, w1) \<Rightarrow> (Inl e, w1)
      | (Inr _, w1) \<Rightarrow>
          case batch_update env (sheet_updates data_to_update) w1 of
            (Inl e, w2) \<Rightarrow> (Inl e, w2)
          | (Inr _, w2) \<Rightarrow> (Inr (), logger_info (lit ''Sheet updated successfully.'') w2))"

definition update_google_sheet :: "env \<Rightarrow> row list \<Rightarrow> world \<Rightarrow> (exn + unit) \<times> world" where
  "update_google_sheet env data_to_update w =
     retry_call 5 120 is_APIError (update_google_sheet_body env data_to_update) 1 w"

text \<open>What the range \<open>A2:H\<close> holds when a dataset has been written to it: the fields of
  row \<open>i\<close> of the dataset in row \<open>i + 1\<close> of the sheet, blank where the dataset has
  \<open>None\<close> or nothing.\<close>

definition dataset_cell :: "row list \<Rightarrow> nat \<Rightarrow> nat \<Rightarrow> pystr" where
  "dataset_cell data r c =
     (if 2 \<le> r \<and> r < 2 + length data \<and> 1 \<le> c \<and> c \<le> length (data ! (r - 2))
      then (case data ! (r - 2) ! (c - 1) of None \<Rightarrow> [] | Some v \<Rightarrow> v)
      else [])"

section \<open>The snapshot writer\<close>

text \<open>\<open>sep.join(parts)\<close> and \<open>s.split(sep)\<close> for a separator of one character.\<close>

fun join :: "pystr \<Rightarrow> pystr list \<Rightarrow> pystr" where
  "join sep [] = []"
| "join sep [x] = x"
| "join sep (x # y # ys) = x @ sep @ join sep (y # ys)"

fun split_on :: "nat \<Rightarrow> pystr \<Rightarrow> pystr list" where
  "split_on sep [] = [[]]"
| "split_on sep (x # xs) =
     (if x = sep then [] # split_on sep xs
      else case split_on sep xs of
             [] \<Rightarrow> [[x]]
           | part # parts \<Rightarrow> (x # part) # parts)"

text \<open>The codec \<open>utf-16\<close> on a little-endian machine: the byte order mark \<open>FF FE\<close> before
  the first text written, then two bytes for a code point below \<open>0x10000\<close>, low byte first,
  and a surrogate pair for one above. A surrogate code point cannot be encoded.\<close>

definition encodable :: "nat \<Rightarrow> bool" where
  "encodable c = (c < 0xD800 \<or> (0xE000 \<le> c \<and> c < 0x110000))"

definition utf16_units :: "nat \<Rightarrow> nat list" where
  "utf16_units c =
     (if c < 0x10000 then [c]
      else [0xD800 + (c - 0x10000) div 0x400, 0xDC00 + (c - 0x10000) mod 0x400])"

definition le_bytes :: "nat \<Rightarrow> bytes" where
  "le_bytes u = [u mod 256, u div 256]"

fun utf_16_le_encode :: "pystr \<Rightarrow> exn + bytes" where
  "utf_16_le_encode [] = Inr []"
| "utf_16_le_encode (c # cs) =
     (if \<not> encodable c then Inl UnicodeEncodeError
      else case utf_16_le_encode cs of
             Inl e \<Rightarrow> Inl e
           | Inr bs \<Rightarrow> Inr (concat (map le_bytes (utf16_units c)) @ bs))"

definition BOM_UTF16_LE :: bytes where
  "BOM_UTF16_LE = [255, 254]"

text \<open>Files. \<open>path.unlink()\<close> removes the file; \<open>path.open('w', encoding='utf-16')\<close>
  creates it empty; \<open>file.write(s)\<close> appends the encoding of \<open>s\<close>, after the byte order
  mark when nothing has been written yet, and raises when \<open>s\<close> cannot be encoded.\<close>

definition unlink :: "pystr \<Rightarrow> world \<Rightarrow> world" where
  "unlink path w = emit (Unlink path) (w\<lparr>files := (files w)(path := None)\<rparr>)"

definition open_w :: "pystr \<Rightarrow> world \<Rightarrow> world" where
  "open_w path w = emit (OpenWrite path) (w\<lparr>files := (files w)(path \<mapsto> [])\<rparr>)"

definition file_write :: "pystr \<Rightarrow> pystr \<Rightarrow> world \<Rightarrow> (exn + unit) \<times> world" where
  "file_write path s w =
     (case utf_16_le_encode s of
        Inl e \<Rightarrow> (Inl e, w)
      | Inr bs \<Rightarrow>
          (Inr (),
           w\<lparr>files := (files w)(path \<mapsto>
                (case files w path of
                   None \<Rightarrow> BOM_UTF16_LE @ bs
                 | Some old \<Rightarrow> (if old = [] then BOM_UTF16_LE else old) @ bs))\<rparr>))"

text \<open>\<open>output_dir / filename\<close>, and \<open>path.name\<close>.\<close>

definition path_join :: "pystr \<Rightarrow> pystr \<Rightarrow> pystr" where
  "path_join dir name = (if dir = lit ''/'' then dir @ name else dir @ lit ''/'' @ name)"

definition path_name :: "pystr \<Rightarrow> pystr" where
  "path_name path = last (split_on 47 path)"

text \<open>The loop of \<open>save_data_to_txt\<close>: one line for each row, its fields joined by a tab.\<close>

fun write_lines :: "pystr \<Rightarrow> pystr list list \<Rightarrow> world \<Rightarrow> (exn + unit) \<times> world" where
  "write_lines path [] w = (Inr (), w)"
| "write_lines path (vs # rows) w =
     (case file_write path (join [9] vs @ [10]) w of
        (Inl e, w1) \<Rightarrow> (Inl e, w1)
      | (Inr _, w1) \<Rightarrow> write_lines path rows w1)"

definition save_data_to_txt :: "config \<Rightarrow> pystr list list \<Rightarrow> pystr \<Rightarrow> world \<Rightarrow> (exn + pystr) \<times> world" where
  "save_data_to_txt cfg data_to_save output_dir w =
     (let filename = lit ''TVPPol_output_'' @ CURRENT_DATE cfg @ lit ''.txt'';
          file_path = path_join output_dir filename;
          w1 = (if files w file_path \<noteq> None then unlink file_path w else w);
          w2 = open_w file_path w1
      in case write_lines file_path data_to_save w2 of
           (Inl e, w3) \<Rightarrow> (Inl e, w3)
         | (Inr _, w3) \<Rightarrow> (Inr file_path, logger_info (lit ''Data saved to '' @ file_path) w3))"

subsection \<open>Reading a snapshot back\<close>

text \<open>The reader of the round trip: the bytes are decoded as UTF-16 (the byte order mark
  chooses the byte order, little-endian without one), the text is split into lines at
  the line feeds, and each line is split at the tabs.\<close>

fun code_units :: "bytes \<Rightarrow> nat list option" where
  "code_units [] = Some []"
| "code_units [b] = None"
| "code_units (b0 # b1 # bs) = map_option ((#) (b0 + 256 * b1)) (code_units bs)"

fun decode_units :: "nat list \<Rightarrow> pystr option" where
  "decode_units [] = Some []"
| "decode_units (u # us) =
     (if u < 0xD800 \<or> 0xE000 \<le> u then map_option ((#) u) (decode_units us)
      else if u < 0xDC00 then
        (case us of
           [] \<Rightarrow> None
         | v # vs \<Rightarrow>
             if 0xDC00 \<le> v \<and> v < 0xE000
             then map_option ((#) (0x10000 + (u - 0xD800) * 0x400 + (v - 0xDC00))) (decode_units vs)
             else None)
      else None)"

fun swap_pairs :: "bytes \<Rightarrow> bytes" where
  "swap_pairs (b0 # b1 # bs) = b1 # b0 # swap_pairs bs"
| "swap_pairs bs = bs"

definition utf_16_decode :: "bytes \<Rightarrow> pystr option" where
  "utf_16_decode bs =
     (if take 2 bs = [255, 254] then Option.bind (code_units (drop 2 bs)) decode_units
      else if take 2 bs = [254, 255] then Option.bind (code_units (swap_pairs (drop 2 bs))) decode_units
      else Option.bind (code_units bs) decode_units)"

definition text_lines :: "pystr \<Rightarrow> pystr list" where
  "text_lines s = (if last (split_on 10 s) = [] then butlast (split_on 10 s) else split_on 10 s)"

definition read_snapshot :: "bytes \<Rightarrow> pystr list list option" where
  "read_snapshot bs = map_option (\<lambda>s. map (split_on 9) (text_lines s)) (utf_16_decode bs)"

text \<open>The path of the snapshot, the text written for a dataset (its lines, each ended by
  a line feed), and the bytes of a text in UTF-16, little-endian, without the mark.\<close>

definition snapshot_path :: "config \<Rightarrow> pystr \<Rightarrow> pystr" where
  "snapshot_path cfg output_dir = path_join output_dir (lit ''TVPPol_output_'' @ CURRENT_DATE cfg @ lit ''.txt'')"

definition snapshot_text :: "pystr list list \<Rightarrow> pystr" where
  "snapshot_text data = concat (map (\<lambda>vs. join [9] vs @ [10]) data)"

definition utf_16_le_bytes :: "pystr \<Rightarrow> bytes" where
  "utf_16_le_bytes s = concat (map (\<lambda>c. concat (map le_bytes (utf16_units c))) s)"

text \<open>The bytes of the snapshot of a dataset: no bytes for no records, the mark and the
  encoded lines otherwise.\<close>

definition snapshot_bytes :: "pystr list list \<Rightarrow> bytes" where
  "snapshot_bytes data = (if data = [] then [] else BOM_UTF16_LE @ utf_16_le_bytes (snapshot_text data))"

section \<open>The notifier\<close>

definition LOG_FILE :: "config \<Rightarrow> pystr" where
  "LOG_FILE cfg = lit ''tvp_scraper_'' @ CURRENT_DATE cfg @ lit ''.log''"

text \<open>The body of \<open>send_email_with_attachment\<close>: the snapshot is read (\<open>open\<close> raises when
  there is no such file), then the log file; the message is built; the SMTP session
  (connect, STARTTLS, login, \<open>sendmail\<close> to the primary recipient, quit) is one event,
  which the environment fails or lets deliver. The base64 transfer encoding of the
  attachments is left out: a part carries its payload as it is.\<close>

definition send_email_body :: "env \<Rightarrow> config \<Rightarrow> pystr \<Rightarrow> world \<Rightarrow> (exn + unit) \<times> world" where
  "send_email_body env cfg file_path w =
     (case files w file_path of
        None \<Rightarrow> (Inl FileNotFoundError, w)
      | Some data \<Rightarrow>
          let msg = \<lparr>msg_From = sender_email cfg, msg_To = receiver_email cfg,
                     msg_Subject = email_subject cfg, msg_Cc = join (lit '', '') (cc_list cfg),
                     msg_body = email_body cfg,
                     msg_parts = [\<lparr>filename = path_name file_path, payload = FileBytes data\<rparr>,
                                  \<lparr>filename = path_name (LOG_FILE cfg), payload = LogFile (LOG_FILE cfg)\<rparr>]\<rparr>
          in case smtp env (length (trace w)) of
               Some e \<Rightarrow> (Inl e, emit SmtpSession w)
             | None \<Rightarrow>
                 (Inr (),
                  logger_info (lit ''Email sent successfully'')
                    (emit SmtpSession
                       (w\<lparr>outbox := outbox w @ [\<lparr>envelope_from = sender_email cfg,
                                                   envelope_to = receiver_email cfg,
                                                   envelope_msg = msg\<rparr>]\<rparr>))))"

definition send_email_with_attachment :: "env \<Rightarrow> config \<Rightarrow> pystr \<Rightarrow> world \<Rightarrow> (exn + unit) \<times> world" where
  "send_email_with_attachment env cfg file_path w =
     retry_call 5 120 is_SMTPException (send_email_body env cfg file_path) 1 w"

section \<open>The run\<close>

definition COLUMN_INDEX :: nat where
  "COLUMN_INDEX = 13"

text \<open>The loop over the URLs, with \<open>all_results\<close> as accumulator: an empty entry is
  skipped; an exception of the fetch or of the parse ends the loop and the run.\<close>

fun fetch_all :: "env \<Rightarrow> pystr list \<Rightarrow> row list \<Rightarrow> world \<Rightarrow> (exn + row list) \<times> world" where
  "fetch_all env [] all_results w = (Inr all_results, w)"
| "fetch_all env (url # urls_list) all_results w =
     (if url \<noteq> [] then
        (case fetch_url env url w of
           (Inl e, w1) \<Rightarrow> (Inl e, w1)
         | (Inr response, w1) \<Rightarrow>
             (case parse_xml_content (content response) w1 of
                (Inl e, w2) \<Rightarrow> (Inl e, w2)
              | (Inr rows, w2) \<Rightarrow> fetch_all env urls_list (all_results @ rows) w2))
      else fetch_all env urls_list all_results w)"

text \<open>The statements of the module from the reading of the URL column on, the worksheet
  being open: the URLs are column M without its header; the rows of all feeds are
  collected; the sheet is updated; the range \<open>A2:H\<close> is read back; what was read is saved as
  the snapshot; the snapshot is mailed.\<close>

definition run :: "env \<Rightarrow> config \<Rightarrow> world \<Rightarrow> (exn + unit) \<times> world" where
  "run env cfg w =
     (case col_values env COLUMN_INDEX w of
        (Inl e, w1) \<Rightarrow> (Inl e, w1)
      | (Inr column, w1) \<Rightarrow>
          (case fetch_all env (drop 1 column) [] w1 of
             (Inl e, w2) \<Rightarrow> (Inl e, w2)
           | (Inr all_results, w2) \<Rightarrow>
               (case update_google_sheet env all_results w2 of
                  (Inl e, w3) \<Rightarrow> (Inl e, w3)
                | (Inr _, w3) \<Rightarrow>
                    (case sheet_get env A2_H w3 of
                       (Inl e, w4) \<Rightarrow> (Inl e, w4)
                     | (Inr sheet_data, w4) \<Rightarrow>
                         (case save_data_to_txt cfg sheet_data (cwd cfg) w4 of
                            (Inl e, w5) \<Rightarrow> (Inl e, w5)
                          | (Inr saved_file_path, w5) \<Rightarrow>
                              send_email_with_attachment env cfg saved_file_path w5)))))"

subsection \<open>What a run may do\<close>

text \<open>The events of the first two steps of a run (reading the URL column, fetching, and
  sleeping between attempts), and the relation between two worlds that differ by such
  events and by log lines only: the same sheet, the same files, the same mail sent.\<close>

fun fetch_event :: "event \<Rightarrow> bool" where
  "fetch_event (HttpGet url) = True"
| "fetch_event (Sleep seconds) = True"
| "fetch_event (Api (ColValues n)) = True"
| "fetch_event _ = False"

definition fetch_only :: "world \<Rightarrow> world \<Rightarrow> bool" where
  "fetch_only w w' =
     (sheet w' = sheet w \<and> files w' = files w \<and> outbox w' = outbox w
      \<and> (\<exists>t. trace w' = trace w @ t \<and> list_all fetch_event t))"

text \<open>The mail a run sends for a snapshot: the configured headers and body, the snapshot
  and the log file attached.\<close>

definition notification :: "config \<Rightarrow> pystr \<Rightarrow> bytes \<Rightarrow> sent_mail" where
  "notification cfg file_path data =
     \<lparr>envelope_from = sender_email cfg, envelope_to = receiver_email cfg,
      envelope_msg =
        \<lparr>msg_From = sender_email cfg, msg_To = receiver_email cfg,
         msg_Subject = email_subject cfg, msg_Cc = join (lit '', '') (cc_list cfg),
         msg_body = email_body cfg,
         msg_parts = [\<lparr>filename = path_name file_path, payload = FileBytes data\<rparr>,
                      \<lparr>filename = path_name (LOG_FILE cfg), payload = LogFile (LOG_FILE cfg)\<rparr>]\<rparr>\<rparr>"

subsection \<open>Sample environments and worlds\<close>

text \<open>Every service is down.\<close>

definition down_env :: env where
  "down_env = \<lparr>network = (\<lambda>n url. Inl ConnectionError), url_parses = (\<lambda>url. True),
     api = (\<lambda>n op. Some APIError), smtp = (\<lambda>n. Some SMTPException), no_values = NoRows\<rparr>"




definition example_config :: config where
  "example_config = \<lparr>sender_email = lit ''from@example.com'', sender_password = lit ''secret'',
     receiver_email = lit ''to@example.com'', cc_list = [lit ''a@example.com'', lit ''b@example.com''],
     email_subject = lit ''TVP - 20240101'', email_body = lit ''See attachment.'',
     CURRENT_DATE = lit ''20240101'', cwd = lit ''/work''\<rparr>"

definition snapshot_world :: world where
  "snapshot_world = example_world\<lparr>files := [lit ''/work/TVPPol_output_20240101.txt'' \<mapsto> []]\<rparr>"

text \<open>Every service answers; the feed is the sample feed.\<close>

definition ok_env :: env where
  "ok_env = \<lparr>network = (\<lambda>n url. Inr \<lparr>status_code = 200, content = Document example_feed\<rparr>),
     url_parses = (\<lambda>url. True), api = (\<lambda>n op. None), smtp = (\<lambda>n. None), no_values = NoRows\<rparr>"

text \<open>The same, with gspread 6.x installed.\<close>

definition recent_env :: env where
  "recent_env = ok_env\<lparr>no_values := OneEmptyRow\<rparr>"

definition stale_world :: world where
  "stale_world = \<lparr>sheet = \<lparr>row_count = 4,
        cell = (\<lambda>r c. if r = 1 \<and> c = 13 then lit ''URLs''
                    else if r = 2 \<and> c = 13 then lit ''http://a''
                    else if r = 4 \<and> c = 8 then lit ''old'' else [])\<rparr>,
     files = Map.empty, log = [], outbox = [], trace = []\<rparr>"

definition tabbed_rows :: "pystr list list" where
  "tabbed_rows = [[lit ''d'', lit ''t'', lit ''T'', [97, 9, 98], lit ''e'', lit ''y'', lit ''r'', lit ''g'']]"

definition plain_rows :: "pystr list list" where
  "plain_rows = [[lit ''20240101'', lit ''1000'', lit ''Show A'', lit ''Desc'', lit ''EP1'', lit ''2020'',
                  lit ''PG'', lit ''Drama''],
                 [[], lit ''1100'', [322, 243, 100, 378], [128250], [], [], [], []]]"



definition rerun_world :: world where
  "rerun_world = \<lparr>sheet = \<lparr>row_count = 4,
        cell = (\<lambda>r c. if r = 1 \<and> c = 13 then lit ''URLs''
                    else if r = 4 \<and> c = 8 then lit ''old'' else [])\<rparr>,
     files = [lit ''/work/TVPPol_output_20240101.txt'' \<mapsto> [255, 254, 120, 0]],
     log = [], outbox = [], trace = []\<rparr>"

definition filler_feed :: element where
  "filler_feed = Element (lit ''prdata'') None
     [Element (lit ''prrecord'') None
        [Element (lit ''TITEL'') (Some FILLER_TITLE) [], leaf ''START'' ''2359'']]"

definition filler_env :: env where
  "filler_env = \<lparr>network = (\<lambda>n url. Inr \<lparr>status_code = 200, content = Document filler_feed\<rparr>),
     url_parses = (\<lambda>url. True), api = (\<lambda>n op. None), smtp = (\<lambda>n. None), no_values = NoRows\<rparr>"

definition read_back_rows :: "pystr list list" where
  "read_back_rows =
     [[lit ''20240101'', lit ''1000'', lit ''Show A'', lit ''Desc'', lit ''EP1'', lit ''2020'',
       lit ''PG'', lit ''Drama''],
      [[], lit ''1100'', lit ''Show B'']]"

section \<open>Properties of the record parser\<close>

declare str_nat.simps [simp del]

lemma warn_if_None_log:
  "warn_if_None x m w = w\<lparr>log := log w @ (case x of None \<Rightarrow> [(''WARNING'', lit m)] | Some _ \<Rightarrow> [])\<rparr>"
  by (simp add: warn_if_None_def logger_warning_def split: option.split)

lemma data_row_of_eq:
  assumes "find_first (lit ''TITEL'') rec = Some titel"
  shows "data_row_of rec (text_of titel) w = (row_of rec, w\<lparr>log := log w @ warnings_of rec\<rparr>)"
proof -
  have row: "fst (data_row_of rec (text_of titel) w) = row_of rec"
    using assms by (simp add: data_row_of_def Let_def row_of_def COLUMN_TAGS_def text_or_empty_def)
  have wld: "snd (data_row_of rec (text_of titel) w) = w\<lparr>log := log w @ warnings_of rec\<rparr>"
    by (simp add: data_row_of_def Let_def warn_if_None_log warnings_of_def MISSING_TAG_WARNINGS_def)
  show ?thesis using row wld by (simp add: prod_eq_iff)
qed

lemma parse_records_eq:
  assumes "\<forall>rec \<in> set records. has_title rec"
  shows "parse_records records acc w =
    (Inr (acc @ map row_of (filter (\<lambda>r. \<not> is_filler r) records)),
     w\<lparr>log := log w @ concat (map warnings_of (filter (\<lambda>r. \<not> is_filler r) records))\<rparr>)"
  using assms
proof (induction records arbitrary: acc w)
  case Nil
  show ?case by simp
next
  case (Cons rec records)
  from Cons.prems obtain titel where t: "find_first (lit ''TITEL'') rec = Some titel"
    by (auto simp: has_title_def)
  have rest: "\<forall>r \<in> set records. has_title r" using Cons.prems by simp
  show ?case
  proof (cases "text_of titel = Some FILLER_TITLE")
    case True
    then have "is_filler rec" by (simp add: is_filler_def title_of_def t)
    then show ?thesis using True t Cons.IH[OF rest] by simp
  next
    case False
    then have nf: "\<not> is_filler rec" by (simp add: is_filler_def title_of_def t)
    show ?thesis using False nf t Cons.IH[OF rest] by (simp add: data_row_of_eq)
  qed
qed

lemma length_row_of: "length (row_of rec) = 8"
  by (simp add: row_of_def COLUMN_TAGS_def)

text \<open>Claim C1. When every record of a feed has a title element, \<open>parse_xml_content\<close>
  returns one row of 8 fields for each record that is not a filler program, in document
  order, and none for a record whose title is the filler sentinel; the log gains the line
  with the record count and then the missing-tag warnings of the records that are kept
  only, so a filler record is dropped with no warning logged for it. The number of rows
  is the number of records minus the number of filler records.\<close>

theorem parse_xml_content_rows:
  assumes "\<forall>rec \<in> set (findall (lit ''prrecord'') root). has_title rec"
  shows "parse_xml_content (Document root) w =
      (Inr (map row_of (filter (\<lambda>r. \<not> is_filler r) (findall (lit ''prrecord'') root))),
       w\<lparr>log := log w
          @ [(''INFO'', lit ''Count of records: '' @ str_nat (length (findall (lit ''prrecord'') root)))]
          @ concat (map warnings_of (filter (\<lambda>r. \<not> is_filler r) (findall (lit ''prrecord'') root)))\<rparr>)
    \<and> (\<forall>row \<in> set (map row_of (filter (\<lambda>r. \<not> is_filler r) (findall (lit ''prrecord'') root))).
          length row = 8)
    \<and> length (map row_of (filter (\<lambda>r. \<not> is_filler r) (findall (lit ''prrecord'') root)))
        = length (findall (lit ''prrecord'') root)
          - length (filter is_filler (findall (lit ''prrecord'') root))"
proof -
  let ?records = "findall (lit ''prrecord'') root"
  have run: "parse_xml_content (Document root) w =
      (Inr (map row_of (filter (\<lambda>r. \<not> is_filler r) ?records)),
       w\<lparr>log := log w @ [(''INFO'', lit ''Count of records: '' @ str_nat (length ?records))]
          @ concat (map warnings_of (filter (\<lambda>r. \<not> is_filler r) ?records))\<rparr>)"
    using parse_records_eq[OF assms] by (simp add: parse_xml_content_def Let_def logger_info_def)
  have eight: "\<forall>row \<in> set (map row_of (filter (\<lambda>r. \<not> is_filler r) ?records)). length row = 8"
    by (simp add: length_row_of)
  have "length (filter (\<lambda>r. \<not> is_filler r) ?records) + length (filter is_filler ?records) = length ?records"
    using sum_length_filter_compl[of is_filler ?records] by simp
  then have count: "length (map row_of (filter (\<lambda>r. \<not> is_filler r) ?records))
      = length ?records - length (filter is_filler ?records)"
    by simp
  from run eight count show ?thesis by blast
qed

lemmas parser_eval = findall_def find_first_def lit_def leaf_def FILLER_TITLE_def
  parse_xml_content_def Let_def data_row_of_def warn_if_None_def text_or_empty_def
  logger_info_def logger_warning_def str_nat.simps

lemma example_records:
  "findall (lit ''prrecord'') example_feed = children example_feed"
  by (simp add: example_feed_def findall_def lit_def leaf_def)

lemma example_has_title:
  "\<forall>rec \<in> set (findall (lit ''prrecord'') example_feed). has_title rec"
  by (simp add: example_feed_def has_title_def parser_eval)

lemma example_parse_rows:
  "fst (parse_xml_content (Document example_feed) example_world) = Inr example_rows"
  by (simp add: example_feed_def example_rows_def parser_eval)

lemma example_parse_log:
  "log (snd (parse_xml_content (Document example_feed) example_world)) =
     [(''INFO'', lit ''Count of records: 3''),
      (''WARNING'', lit ''Missing tag: PR_AIRDATE. TX DATE WILL BE EMPTY, CHECK OUTPUT!''),
      (''WARNING'', lit ''Missing tag: PR_CODE. Episode ID will be empty.''),
      (''WARNING'', lit ''Missing tag: JAHR. Production year field will be empty.''),
      (''WARNING'', lit ''Missing tag: PLRATING. Ratings field will be empty.''),
      (''WARNING'', lit ''Missing tag: TEMATYKA. Genre field will be empty.'')]"
  by (simp add: example_feed_def example_world_def parser_eval)

theorem parse_xml_content_rows_witness:
  "fst (parse_xml_content (Document example_feed) example_world) = Inr example_rows
   \<and> length (findall (lit ''prrecord'') example_feed) = 3
   \<and> length (filter is_filler (findall (lit ''prrecord'') example_feed)) = 1
   \<and> length example_rows = 3 - 1
   \<and> log (snd (parse_xml_content (Document example_feed) example_world)) =
       [(''INFO'', lit ''Count of records: 3''),
        (''WARNING'', lit ''Missing tag: PR_AIRDATE. TX DATE WILL BE EMPTY, CHECK OUTPUT!''),
        (''WARNING'', lit ''Missing tag: PR_CODE. Episode ID will be empty.''),
        (''WARNING'', lit ''Missing tag: JAHR. Production year field will be empty.''),
        (''WARNING'', lit ''Missing tag: PLRATING. Ratings field will be empty.''),
        (''WARNING'', lit ''Missing tag: TEMATYKA. Genre field will be empty.'')]"
proof -
  note inst = parse_xml_content_rows[OF example_has_title, of example_world]
  have n: "length (findall (lit ''prrecord'') example_feed) = 3"
    unfolding example_records by (simp add: example_feed_def)
  have f: "length (filter is_filler (findall (lit ''prrecord'') example_feed)) = 1"
    unfolding example_records
    by (simp add: is_filler_def title_of_def example_feed_def find_first_def
        findall_def lit_def leaf_def FILLER_TITLE_def)
  from inst have "fst (parse_xml_content (Document example_feed) example_world) =
      Inr (map row_of (filter (\<lambda>r. \<not> is_filler r) (findall (lit ''prrecord'') example_feed)))"
    by simp
  with example_parse_rows
  have rows: "map row_of (filter (\<lambda>r. \<not> is_filler r) (findall (lit ''prrecord'') example_feed))
      = example_rows" by simp
  from inst rows n f have "length example_rows = 3 - 1" by simp
  with example_parse_rows n f example_parse_log show ?thesis by simp
qed

lemma parse_records_untitled:
  assumes "\<exists>rec \<in> set records. \<not> has_title rec"
  shows "fst (parse_records records acc w) = Inl AttributeError"
  using assms
proof (induction records arbitrary: acc w)
  case Nil
  then show ?case by simp
next
  case (Cons rec records)
  show ?case
  proof (cases "find_first (lit ''TITEL'') rec")
    case None
    then show ?thesis by simp
  next
    case (Some titel)
    then have "has_title rec" by (simp add: has_title_def)
    with Cons.prems have "\<exists>r \<in> set records. \<not> has_title r" by simp
    from Cons.IH[OF this] Some show ?thesis by simp
  qed
qed

text \<open>Claim C8. A feed with a record that has no \<open>TITEL\<close> element makes
  \<open>parse_xml_content\<close> raise (\<open>AttributeError\<close>, from the text of \<open>None\<close>), so no rows
  are returned; when every record has one, the parse returns its rows.\<close>

theorem parse_xml_content_title:
  "((\<exists>rec \<in> set (findall (lit ''prrecord'') root). find_first (lit ''TITEL'') rec = None)
      \<longrightarrow> fst (parse_xml_content (Document root) w) = Inl AttributeError)
   \<and> ((\<forall>rec \<in> set (findall (lit ''prrecord'') root). find_first (lit ''TITEL'') rec \<noteq> None)
      \<longrightarrow> (\<exists>rows. fst (parse_xml_content (Document root) w) = Inr rows))"
proof (intro conjI impI)
  assume "\<exists>rec \<in> set (findall (lit ''prrecord'') root). find_first (lit ''TITEL'') rec = None"
  then have "\<exists>rec \<in> set (findall (lit ''prrecord'') root). \<not> has_title rec"
    by (simp add: has_title_def)
  from parse_records_untitled[OF this]
  show "fst (parse_xml_content (Document root) w) = Inl AttributeError"
    by (simp add: parse_xml_content_def Let_def)
next
  assume "\<forall>rec \<in> set (findall (lit ''prrecord'') root). find_first (lit ''TITEL'') rec \<noteq> None"
  then have "\<forall>rec \<in> set (findall (lit ''prrecord'') root). has_title rec"
    by (simp add: has_title_def)
  from parse_records_eq[OF this]
  show "\<exists>rows. fst (parse_xml_content (Document root) w) = Inr rows"
    by (simp add: parse_xml_content_def Let_def)
qed

theorem parse_xml_content_title_witness:
  "fst (parse_xml_content (Document untitled_feed) example_world) = Inl AttributeError
   \<and> (\<exists>rows. fst (parse_xml_content (Document example_feed) example_world) = Inr rows)"
proof -
  have bad: "\<exists>rec \<in> set (findall (lit ''prrecord'') untitled_feed). find_first (lit ''TITEL'') rec = None"
    by (simp add: untitled_feed_def parser_eval)
  have good: "\<forall>rec \<in> set (findall (lit ''prrecord'') example_feed). find_first (lit ''TITEL'') rec \<noteq> None"
    using example_has_title by (simp add: has_title_def)
  from parse_xml_content_title[of untitled_feed example_world] bad
  have 1: "fst (parse_xml_content (Document untitled_feed) example_world) = Inl AttributeError"
    by blast
  from parse_xml_content_title[of example_feed example_world] good
  have 2: "\<exists>rows. fst (parse_xml_content (Document example_feed) example_world) = Inr rows"
    by blast
  from 1 2 show ?thesis by simp
qed

lemma parse_ok_has_title:
  assumes "fst (parse_xml_content (Document root) w) = Inr rows"
  shows "\<forall>rec \<in> set (findall (lit ''prrecord'') root). has_title rec"
proof (rule ccontr)
  assume "\<not> ?thesis"
  then have "\<exists>rec \<in> set (findall (lit ''prrecord'') root). \<not> has_title rec" by simp
  from parse_records_untitled[OF this] assms show False
    by (simp add: parse_xml_content_def Let_def)
qed

lemma row_of_nth:
  assumes "k < 8"
  shows "row_of rec ! k =
    (case find_first (lit (COLUMN_TAGS ! k)) rec of None \<Rightarrow> Some [] | Some e \<Rightarrow> text_of e)"
proof -
  have "k < length COLUMN_TAGS" using assms by (simp add: COLUMN_TAGS_def)
  then show ?thesis by (simp add: row_of_def text_or_empty_def)
qed

lemma None_notin_image: "(None \<notin> f ` S) = (\<forall>x \<in> S. f x \<noteq> None)"
  by (metis imageE imageI)

lemma row_of_strings:
  "(None \<notin> set (row_of rec)) =
     (\<forall>name \<in> set COLUMN_TAGS. \<forall>e. find_first (lit name) rec = Some e \<longrightarrow> text_of e \<noteq> None)"
proof -
  have fld: "\<And>name. (text_or_empty (find_first (lit name) rec) \<noteq> None) =
      (\<forall>e. find_first (lit name) rec = Some e \<longrightarrow> text_of e \<noteq> None)"
    by (simp add: text_or_empty_def split: option.split)
  have "(None \<notin> set (row_of rec)) =
      (\<forall>name \<in> set COLUMN_TAGS. text_or_empty (find_first (lit name) rec) \<noteq> None)"
    unfolding row_of_def set_map by (rule None_notin_image)
  then show ?thesis by (simp only: fld)
qed

text \<open>Claim C2, as the code has it. Every row returned has 8 fields; a field is the
  empty string when its tag is missing from the record, and the text of the first element
  with that tag otherwise, as it is: \<open>None\<close>, not the empty string, when that element has
  no text. This holds for the title as for the seven optional fields. So all fields of a
  row are strings exactly when every element the row is read from has text.\<close>

theorem parse_xml_content_fields:
  assumes "fst (parse_xml_content (Document root) w) = Inr rows" and "row \<in> set rows"
  shows "\<exists>rec \<in> set (findall (lit ''prrecord'') root).
      length row = 8
      \<and> (\<forall>k < 8. row ! k =
            (case find_first (lit (COLUMN_TAGS ! k)) rec of None \<Rightarrow> Some [] | Some e \<Rightarrow> text_of e))
      \<and> ((None \<notin> set row) =
            (\<forall>name \<in> set COLUMN_TAGS. \<forall>e. find_first (lit name) rec = Some e \<longrightarrow> text_of e \<noteq> None))"
proof -
  let ?records = "findall (lit ''prrecord'') root"
  from parse_ok_has_title[OF assms(1)] have "\<forall>rec \<in> set ?records. has_title rec" .
  from parse_records_eq[OF this] assms(1)
  have "rows = map row_of (filter (\<lambda>r. \<not> is_filler r) ?records)"
    by (simp add: parse_xml_content_def Let_def)
  with assms(2) obtain rec where rec: "rec \<in> set ?records" and row: "row = row_of rec"
    by auto
  have "length row = 8" using row by (simp add: length_row_of)
  moreover have "\<forall>k < 8. row ! k =
      (case find_first (lit (COLUMN_TAGS ! k)) rec of None \<Rightarrow> Some [] | Some e \<Rightarrow> text_of e)"
    using row by (simp add: row_of_nth)
  moreover have "(None \<notin> set row) =
      (\<forall>name \<in> set COLUMN_TAGS. \<forall>e. find_first (lit name) rec = Some e \<longrightarrow> text_of e \<noteq> None)"
    using row row_of_strings by simp
  ultimately show ?thesis using rec by blast
qed

theorem parse_xml_content_fields_witness:
  "\<exists>rec \<in> set (findall (lit ''prrecord'') example_feed).
      length (example_rows ! 1) = 8
      \<and> (\<forall>k < 8. example_rows ! 1 ! k =
            (case find_first (lit (COLUMN_TAGS ! k)) rec of None \<Rightarrow> Some [] | Some e \<Rightarrow> text_of e))
      \<and> ((None \<notin> set (example_rows ! 1)) =
            (\<forall>name \<in> set COLUMN_TAGS. \<forall>e. find_first (lit name) rec = Some e \<longrightarrow> text_of e \<noteq> None))"
proof -
  have r: "example_rows ! 1 \<in> set example_rows"
    by (simp add: example_rows_def)
  from parse_xml_content_fields[OF example_parse_rows r] show ?thesis .
qed

text \<open>A record with a title and an empty \<open>EPG\<close> element: the description field of its
  row is \<open>None\<close>.\<close>

theorem parse_xml_content_fields_counterexample:
  "fst (parse_xml_content
     (Document (Element (lit ''prdata'') None
        [Element (lit ''prrecord'') None
           [Element (lit ''TITEL'') (Some (lit ''Show B'')) [],
            Element (lit ''EPG'') None []]]))
     example_world)
   = Inr [[Some [], Some [], Some (lit ''Show B''), None, Some [], Some [], Some [], Some []]]"
  by (simp add: parser_eval)

section \<open>Properties of the retry wrapper and the fetcher\<close>

declare retry_call.simps [simp del]

lemma retry_call_Inr:
  "fn w = (Inr v, w') \<Longrightarrow> retry_call m d p fn n w = (Inr v, w')"
  by (subst retry_call.simps) simp

lemma retry_call_raise:
  "fn w = (Inl e, w') \<Longrightarrow> \<not> p e \<Longrightarrow> retry_call m d p fn n w = (Inl e, w')"
  by (subst retry_call.simps) simp

lemma retry_call_stop:
  "fn w = (Inl e, w') \<Longrightarrow> p e \<Longrightarrow> m \<le> n \<Longrightarrow> retry_call m d p fn n w = (Inl (RetryError e), w')"
  by (subst retry_call.simps) simp

lemma retry_call_again:
  "fn w = (Inl e, w') \<Longrightarrow> p e \<Longrightarrow> n < m \<Longrightarrow>
     retry_call m d p fn n w = retry_call m d p fn (Suc n) (sleep d w')"
  by (subst retry_call.simps) simp

lemma retry_call_exhausted:
  assumes fails: "\<And>a w. 1 \<le> a \<Longrightarrow> a \<le> m \<Longrightarrow> Before a w \<Longrightarrow>
                    \<exists>e w'. fn w = (Inl e, w') \<and> p e \<and> After a e w'"
      and slept: "\<And>a e w'. 1 \<le> a \<Longrightarrow> a < m \<Longrightarrow> After a e w' \<Longrightarrow> Before (Suc a) (sleep d w')"
      and a: "1 \<le> a" "a \<le> m" and w: "Before a w"
  shows "\<exists>e w'. retry_call m d p fn a w = (Inl (RetryError e), w') \<and> p e \<and> After m e w'"
  using a w
proof (induction "m - a" arbitrary: a w)
  case 0
  then have am: "a = m" by simp
  from fails[OF "0.prems"] obtain e w' where f: "fn w = (Inl e, w')" "p e" "After a e w'"
    by blast
  from retry_call_stop[where fn=fn and p=p and w=w and e=e and w'=w' and m=m and n=a and d=d] am f
  show ?case by auto
next
  case (Suc k)
  then have lt: "a < m" by simp
  from fails[OF Suc.prems] obtain e w' where f: "fn w = (Inl e, w')" "p e" "After a e w'"
    by blast
  have k: "k = m - Suc a" using Suc.hyps(2) by simp
  have b: "Before (Suc a) (sleep d w')" using slept[OF Suc.prems(1) lt f(3)] .
  from Suc.hyps(1)[OF k _ _ b] lt
  obtain e' w'' where r: "retry_call m d p fn (Suc a) (sleep d w') = (Inl (RetryError e'), w'')"
      "p e'" "After m e' w''"
    by auto
  from retry_call_again[where fn=fn and p=p and w=w and e=e and w'=w' and m=m and n=a and d=d] f lt r
  show ?case by auto
qed

lemma concat_replicate_snoc:
  "concat (replicate k xs) @ xs = xs @ concat (replicate k xs)"
  by (induction k) simp_all

lemma four_rounds:
  "concat (replicate 4 [x, y]) @ [x] = [x, y, x, y, x, y, x, y, x]"
  by (simp add: numeral_eq_Suc)

lemma fetch_url_exhausted:
  assumes down: "\<forall>k<5. \<exists>e. http env (length (trace w) + 2 * k) url = Inl e \<and> is_RequestException e"
  shows "\<exists>e. fetch_url env url w =
           (Inl (RetryError e),
            w\<lparr>trace := trace w @ [HttpGet url, Sleep 120, HttpGet url, Sleep 120, HttpGet url,
                                   Sleep 120, HttpGet url, Sleep 120, HttpGet url]\<rparr>)
         \<and> http env (length (trace w) + 8) url = Inl e \<and> is_RequestException e"
proof -
  define Before where "Before = (\<lambda>a w'.
    w' = w\<lparr>trace := trace w @ concat (replicate (a - 1) [HttpGet url, Sleep 120])\<rparr>)"
  define After where "After = (\<lambda>a e w'.
    w' = w\<lparr>trace := trace w @ concat (replicate (a - 1) [HttpGet url, Sleep 120]) @ [HttpGet url]\<rparr>
    \<and> http env (length (trace w) + 2 * (a - 1)) url = Inl e)"
  have fails: "\<exists>e w''. fetch_url_body env url w' = (Inl e, w'') \<and> is_RequestException e \<and> After a e w''"
    if "1 \<le> a" "a \<le> 5" "Before a w'" for a w'
  proof -
    from that have "a - 1 < 5" by simp
    with down obtain e where e: "http env (length (trace w) + 2 * (a - 1)) url = Inl e"
        "is_RequestException e" by blast
    have len: "length (trace w') = length (trace w) + 2 * (a - 1)"
      using that(3) by (simp add: Before_def length_concat sum_list_replicate)
    have "fetch_url_body env url w' = (Inl e, emit (HttpGet url) w')"
      using e(1) len by (simp add: fetch_url_body_def requests_get_def)
    moreover have "After a e (emit (HttpGet url) w')"
      using that(3) e(1) by (simp add: Before_def After_def emit_def)
    ultimately show ?thesis using e(2) by blast
  qed
  have slept: "Before (Suc a) (sleep 120 w')" if "1 \<le> a" "a < 5" "After a e w'" for a e w'
  proof -
    from that(1) obtain b where "a = Suc b" by (cases a) auto
    with that show ?thesis
      by (simp add: Before_def After_def sleep_def emit_def concat_replicate_snoc)
  qed
  have start: "Before 1 w" by (simp add: Before_def)
  have "\<exists>e w'. retry_call 5 120 is_RequestException (fetch_url_body env url) 1 w
      = (Inl (RetryError e), w') \<and> is_RequestException e \<and> After 5 e w'"
  proof (rule retry_call_exhausted[where Before=Before])
    fix a w' assume "1 \<le> a" "a \<le> 5" "Before a w'"
    then show "\<exists>e w''. fetch_url_body env url w' = (Inl e, w'') \<and> is_RequestException e \<and> After a e w''"
      by (rule fails)
  next
    fix a e w' assume "1 \<le> a" "a < 5" "After a e w'"
    then show "Before (Suc a) (sleep 120 w')" by (rule slept)
  next
    show "(1::nat) \<le> 1" by simp
    show "(1::nat) \<le> 5" by simp
    show "Before 1 w" by (rule start)
  qed
  then obtain e w' where r: "retry_call 5 120 is_RequestException (fetch_url_body env url) 1 w
      = (Inl (RetryError e), w')" "is_RequestException e" "After 5 e w'"
    by blast
  from r(3) have "w' = w\<lparr>trace := trace w @ [HttpGet url, Sleep 120, HttpGet url, Sleep 120,
      HttpGet url, Sleep 120, HttpGet url, Sleep 120, HttpGet url]\<rparr>"
    and "http env (length (trace w) + 8) url = Inl e"
    by (simp_all add: After_def four_rounds)
  with r show ?thesis by (auto simp: fetch_url_def)
qed

lemma send_email_exhausted:
  assumes there: "files w file_path = Some data"
      and down: "\<forall>k<5. \<exists>e. smtp env (length (trace w) + 2 * k) = Some e \<and> is_SMTPException e"
  shows "\<exists>e. send_email_with_attachment env cfg file_path w =
           (Inl (RetryError e),
            w\<lparr>trace := trace w @ [SmtpSession, Sleep 120, SmtpSession, Sleep 120, SmtpSession,
                                   Sleep 120, SmtpSession, Sleep 120, SmtpSession]\<rparr>)
         \<and> smtp env (length (trace w) + 8) = Some e \<and> is_SMTPException e"
proof -
  define Before where "Before = (\<lambda>a w'.
    w' = w\<lparr>trace := trace w @ concat (replicate (a - 1) [SmtpSession, Sleep 120])\<rparr>)"
  define After where "After = (\<lambda>a e w'.
    w' = w\<lparr>trace := trace w @ concat (replicate (a - 1) [SmtpSession, Sleep 120]) @ [SmtpSession]\<rparr>
    \<and> smtp env (length (trace w) + 2 * (a - 1)) = Some e)"
  have fails: "\<exists>e w''. send_email_body env cfg file_path w' = (Inl e, w'') \<and> is_SMTPException e \<and> After a e w''"
    if "1 \<le> a" "a \<le> 5" "Before a w'" for a w'
  proof -
    from that have "a - 1 < 5" by simp
    with down obtain e where e: "smtp env (length (trace w) + 2 * (a - 1)) = Some e"
        "is_SMTPException e" by blast
    have len: "length (trace w') = length (trace w) + 2 * (a - 1)"
      using that(3) by (simp add: Before_def length_concat sum_list_replicate)
    have f: "files w' file_path = Some data"
      using that(3) there by (simp add: Before_def)
    have "send_email_body env cfg file_path w' = (Inl e, emit SmtpSession w')"
      using e(1) len f by (simp add: send_email_body_def Let_def)
    moreover have "After a e (emit SmtpSession w')"
      using that(3) e(1) by (simp add: Before_def After_def emit_def)
    ultimately show ?thesis using e(2) by blast
  qed
  have slept: "Before (Suc a) (sleep 120 w')" if "1 \<le> a" "a < 5" "After a e w'" for a e w'
  proof -
    from that(1) obtain b where "a = Suc b" by (cases a) auto
    with that show ?thesis
      by (simp add: Before_def After_def sleep_def emit_def concat_replicate_snoc)
  qed
  have start: "Before 1 w" by (simp add: Before_def)
  have "\<exists>e w'. retry_call 5 120 is_SMTPException (send_email_body env cfg file_path) 1 w
      = (Inl (RetryError e), w') \<and> is_SMTPException e \<and> After 5 e w'"
  proof (rule retry_call_exhausted[where Before=Before])
    fix a w' assume "1 \<le> a" "a \<le> 5" "Before a w'"
    then show "\<exists>e w''. send_email_body env cfg file_path w' = (Inl e, w'') \<and> is_SMTPException e \<and> After a e w''"
      by (rule fails)
  next
    fix a e w' assume "1 \<le> a" "a < 5" "After a e w'"
    then show "Before (Suc a) (sleep 120 w')" by (rule slept)
  next
    show "(1::nat) \<le> 1" by simp
    show "(1::nat) \<le> 5" by simp
    show "Before 1 w" by (rule start)
  qed
  then obtain e w' where r: "retry_call 5 120 is_SMTPException (send_email_body env cfg file_path) 1 w
      = (Inl (RetryError e), w')" "is_SMTPException e" "After 5 e w'"
    by blast
  from r(3) have "w' = w\<lparr>trace := trace w @ [SmtpSession, Sleep 120, SmtpSession, Sleep 120,
      SmtpSession, Sleep 120, SmtpSession, Sleep 120, SmtpSession]\<rparr>"
    and "smtp env (length (trace w) + 8) = Some e"
    by (simp_all add: After_def four_rounds)
  with r show ?thesis by (auto simp: send_email_with_attachment_def)
qed

lemma update_google_sheet_exhausted:
  assumes down: "\<forall>k<14.
      (\<forall>e. api env (length (trace w) + k) (BatchClear [A2_H]) = Some e \<longrightarrow> is_APIError e)
      \<and> (\<exists>e. api env (length (trace w) + k)
                (BatchUpdate (sheet_updates data)) = Some e
             \<and> is_APIError e)"
  shows "\<exists>e w' t. update_google_sheet env data w = (Inl (RetryError e), w') \<and> is_APIError e
         \<and> trace w' = trace w @ t
         \<and> filter (\<lambda>ev. ev \<noteq> Api (BatchUpdate (sheet_updates data))) t
             = [Api (BatchClear [A2_H]), Sleep 120, Api (BatchClear [A2_H]), Sleep 120,
                Api (BatchClear [A2_H]), Sleep 120, Api (BatchClear [A2_H]), Sleep 120,
                Api (BatchClear [A2_H])]"
proof -
  define us where "us = sheet_updates data"
  define C where "C = Api (BatchClear [A2_H])"
  define keep where "keep = (\<lambda>ev. ev \<noteq> Api (BatchUpdate us))"
  have keepC: "keep C" and keepS: "keep (Sleep 120)" and dropU: "\<not> keep (Api (BatchUpdate us))"
    by (simp_all add: keep_def C_def)
  define Before where "Before = (\<lambda>a (w'::world). \<exists>t.
    trace w' = trace w @ t \<and> length t \<le> 3 * (a - 1)
    \<and> filter keep t = concat (replicate (a - 1) [C, Sleep 120]))"
  define After where "After = (\<lambda>a (e::exn) (w'::world). \<exists>t.
    trace w' = trace w @ t \<and> length t \<le> 3 * (a - 1) + 2
    \<and> filter keep t = concat (replicate (a - 1) [C, Sleep 120]) @ [C])"
  have fails: "\<exists>e w''. update_google_sheet_body env data w' = (Inl e, w'') \<and> is_APIError e \<and> After a e w''"
    if "1 \<le> a" "a \<le> 5" "Before a w'" for a w'
  proof -
    from that(3) obtain t where t: "trace w' = trace w @ t" "length t \<le> 3 * (a - 1)"
        "filter keep t = concat (replicate (a - 1) [C, Sleep 120])"
      by (auto simp: Before_def)
    have k0: "length t < 14" and k1: "Suc (length t) < 14" using t(2) that(2) by simp_all
    have len: "length (trace w') = length (trace w) + length t" using t(1) by simp
    show ?thesis
    proof (cases "api env (length (trace w')) (BatchClear [A2_H])")
      case (Some e)
      with down k0 len have e: "is_APIError e" by simp
      have run: "update_google_sheet_body env data w' = (Inl e, emit C w')"
        using Some by (simp add: update_google_sheet_body_def batch_clear_def C_def)
      have "After a e (emit C w')"
        unfolding After_def
        by (rule exI[of _ "t @ [C]"]) (use t keepC in \<open>simp add: emit_def\<close>)
      with run e show ?thesis by blast
    next
      case None
      define w1 where "w1 = emit C (w'\<lparr>sheet := clear_ranges [A2_H] (sheet w')\<rparr>)"
      have len1: "length (trace w1) = length (trace w) + Suc (length t)"
        using len by (simp add: w1_def emit_def)
      from down k1 obtain e where e: "api env (length (trace w) + Suc (length t)) (BatchUpdate us) = Some e"
          "is_APIError e"
        unfolding us_def by blast
      have run: "update_google_sheet_body env data w' = (Inl e, emit (Api (BatchUpdate us)) w1)"
        using None e(1) len1
        by (simp add: update_google_sheet_body_def batch_clear_def batch_update_def C_def w1_def
            us_def)
      have "After a e (emit (Api (BatchUpdate us)) w1)"
        unfolding After_def
        by (rule exI[of _ "t @ [C, Api (BatchUpdate us)]"])
           (use t keepC dropU in \<open>simp add: emit_def w1_def\<close>)
      with run e show ?thesis by blast
    qed
  qed
  have slept: "Before (Suc a) (sleep 120 w')" if "1 \<le> a" "a < 5" "After a e w'" for a e w'
  proof -
    from that(1) obtain b where b: "a = Suc b" by (cases a) auto
    from that(3) obtain t where t: "trace w' = trace w @ t" "length t \<le> 3 * (a - 1) + 2"
        "filter keep t = concat (replicate (a - 1) [C, Sleep 120]) @ [C]"
      by (auto simp: After_def)
    show ?thesis
      unfolding Before_def
      by (rule exI[of _ "t @ [Sleep 120]"])
         (use t keepS b in \<open>simp add: sleep_def emit_def concat_replicate_snoc\<close>)
  qed
  have start: "Before 1 w" by (simp add: Before_def)
  have "\<exists>e w'. retry_call 5 120 is_APIError (update_google_sheet_body env data) 1 w
      = (Inl (RetryError e), w') \<and> is_APIError e \<and> After 5 e w'"
  proof (rule retry_call_exhausted[where Before=Before])
    fix a w' assume "1 \<le> a" "a \<le> 5" "Before a w'"
    then show "\<exists>e w''. update_google_sheet_body env data w' = (Inl e, w'') \<and> is_APIError e \<and> After a e w''"
      by (rule fails)
  next
    fix a e w' assume "1 \<le> a" "a < 5" "After a e w'"
    then show "Before (Suc a) (sleep 120 w')" by (rule slept)
  next
    show "(1::nat) \<le> 1" by simp
    show "(1::nat) \<le> 5" by simp
    show "Before 1 w" by (rule start)
  qed
  then obtain e w' where r: "retry_call 5 120 is_APIError (update_google_sheet_body env data) 1 w
      = (Inl (RetryError e), w')" "is_APIError e" "After 5 e w'"
    by blast
  from r(3) obtain t where "trace w' = trace w @ t"
     "filter keep t = [C, Sleep 120, C, Sleep 120, C, Sleep 120, C, Sleep 120, C]"
    by (auto simp: After_def four_rounds)
  with r show ?thesis
    unfolding update_google_sheet_def keep_def C_def us_def by blast
qed

lemma http_colon:
  "58 \<in> set url \<Longrightarrow> http env n url = network env n url"
  by (simp add: http_def)


lemma sample_urls:
  "58 \<in> set (lit ''http://a'')" "58 \<in> set (lit ''http://a..b/'')"
  "58 \<notin> set (lit ''example.com/feed.xml'')" "58 \<notin> set (lit ''feed.xml'')"
  by (simp_all add: lit_def)





text \<open>Claim C3, as the code has it. When each of five attempts in a row fails with an
  exception of the retried type, a guarded call makes exactly five attempts, sleeps 120
  seconds between one attempt and the next (four times), makes no sixth attempt, and then
  raises tenacity's \<open>RetryError\<close> carrying the exception of the fifth attempt, not that
  exception itself. For \<open>fetch_url\<close> the attempts are the five \<open>requests.get\<close>; for
  \<open>update_google_sheet\<close> an attempt fails at its clear or, the clear served, at its
  update, so its trace without the update requests is five clears with four sleeps
  between; for \<open>send_email_with_attachment\<close> the attempts are five SMTP sessions.\<close>

theorem retries_exhausted:
  "((\<forall>k<5. \<exists>e. http env (length (trace w) + 2 * k) url = Inl e \<and> is_RequestException e) \<longrightarrow>
      (\<exists>e. fetch_url env url w =
              (Inl (RetryError e),
               w\<lparr>trace := trace w @ [HttpGet url, Sleep 120, HttpGet url, Sleep 120, HttpGet url,
                                      Sleep 120, HttpGet url, Sleep 120, HttpGet url]\<rparr>)
            \<and> http env (length (trace w) + 8) url = Inl e \<and> is_RequestException e))
   \<and> ((\<forall>k<14.
          (\<forall>e. api env (length (trace w) + k) (BatchClear [A2_H]) = Some e \<longrightarrow> is_APIError e)
          \<and> (\<exists>e. api env (length (trace w) + k)
                    (BatchUpdate (sheet_updates data)) = Some e
                 \<and> is_APIError e)) \<longrightarrow>
      (\<exists>e w' t. update_google_sheet env data w = (Inl (RetryError e), w') \<and> is_APIError e
         \<and> trace w' = trace w @ t
         \<and> filter (\<lambda>ev. ev \<noteq> Api (BatchUpdate (sheet_updates data))) t
             = [Api (BatchClear [A2_H]), Sleep 120, Api (BatchClear [A2_H]), Sleep 120,
                Api (BatchClear [A2_H]), Sleep 120, Api (BatchClear [A2_H]), Sleep 120,
                Api (BatchClear [A2_H])]))
   \<and> (files w file_path \<noteq> None
        \<and> (\<forall>k<5. \<exists>e. smtp env (length (trace w) + 2 * k) = Some e \<and> is_SMTPException e) \<longrightarrow>
      (\<exists>e. send_email_with_attachment env cfg file_path w =
              (Inl (RetryError e),
               w\<lparr>trace := trace w @ [SmtpSession, Sleep 120, SmtpSession, Sleep 120, SmtpSession,
                                      Sleep 120, SmtpSession, Sleep 120, SmtpSession]\<rparr>)
            \<and> smtp env (length (trace w) + 8) = Some e \<and> is_SMTPException e))"
proof (intro conjI impI)
  assume "\<forall>k<5. \<exists>e. http env (length (trace w) + 2 * k) url = Inl e \<and> is_RequestException e"
  then show "\<exists>e. fetch_url env url w =
              (Inl (RetryError e),
               w\<lparr>trace := trace w @ [HttpGet url, Sleep 120, HttpGet url, Sleep 120, HttpGet url,
                                      Sleep 120, HttpGet url, Sleep 120, HttpGet url]\<rparr>)
            \<and> http env (length (trace w) + 8) url = Inl e \<and> is_RequestException e"
    by (rule fetch_url_exhausted)
next
  assume "\<forall>k<14.
          (\<forall>e. api env (length (trace w) + k) (BatchClear [A2_H]) = Some e \<longrightarrow> is_APIError e)
          \<and> (\<exists>e. api env (length (trace w) + k)
                    (BatchUpdate (sheet_updates data)) = Some e
                 \<and> is_APIError e)"
  then show "\<exists>e w' t. update_google_sheet env data w = (Inl (RetryError e), w') \<and> is_APIError e
         \<and> trace w' = trace w @ t
         \<and> filter (\<lambda>ev. ev \<noteq> Api (BatchUpdate (sheet_updates data))) t
             = [Api (BatchClear [A2_H]), Sleep 120, Api (BatchClear [A2_H]), Sleep 120,
                Api (BatchClear [A2_H]), Sleep 120, Api (BatchClear [A2_H]), Sleep 120,
                Api (BatchClear [A2_H])]"
    by (rule update_google_sheet_exhausted)
next
  assume a: "files w file_path \<noteq> None
        \<and> (\<forall>k<5. \<exists>e. smtp env (length (trace w) + 2 * k) = Some e \<and> is_SMTPException e)"
  then obtain data where "files w file_path = Some data" by auto
  from send_email_exhausted[OF this] a
  show "\<exists>e. send_email_with_attachment env cfg file_path w =
              (Inl (RetryError e),
               w\<lparr>trace := trace w @ [SmtpSession, Sleep 120, SmtpSession, Sleep 120, SmtpSession,
                                      Sleep 120, SmtpSession, Sleep 120, SmtpSession]\<rparr>)
            \<and> smtp env (length (trace w) + 8) = Some e \<and> is_SMTPException e"
    by blast
qed

theorem retries_exhausted_witness:
  "(\<exists>e. fetch_url down_env (lit ''http://a'') example_world =
              (Inl (RetryError e),
               example_world\<lparr>trace := trace example_world @
                  [HttpGet (lit ''http://a''), Sleep 120, HttpGet (lit ''http://a''), Sleep 120,
                   HttpGet (lit ''http://a''), Sleep 120, HttpGet (lit ''http://a''), Sleep 120,
                   HttpGet (lit ''http://a'')]\<rparr>)
            \<and> http down_env (length (trace example_world) + 8) (lit ''http://a'') = Inl e
            \<and> is_RequestException e)
   \<and> (\<exists>e w' t. update_google_sheet down_env example_rows example_world = (Inl (RetryError e), w')
         \<and> is_APIError e
         \<and> trace w' = trace example_world @ t
         \<and> filter (\<lambda>ev. ev \<noteq> Api (BatchUpdate (sheet_updates example_rows))) t
             = [Api (BatchClear [A2_H]), Sleep 120, Api (BatchClear [A2_H]), Sleep 120,
                Api (BatchClear [A2_H]), Sleep 120, Api (BatchClear [A2_H]), Sleep 120,
                Api (BatchClear [A2_H])])
   \<and> (\<exists>e. send_email_with_attachment down_env example_config
              (lit ''/work/TVPPol_output_20240101.txt'') snapshot_world =
              (Inl (RetryError e),
               snapshot_world\<lparr>trace := trace snapshot_world @
                  [SmtpSession, Sleep 120, SmtpSession, Sleep 120, SmtpSession,
                   Sleep 120, SmtpSession, Sleep 120, SmtpSession]\<rparr>)
            \<and> smtp down_env (length (trace snapshot_world) + 8) = Some e \<and> is_SMTPException e)"
proof -
  have h1: "\<forall>k<5. \<exists>e. http down_env (length (trace example_world) + 2 * k) (lit ''http://a'') = Inl e
      \<and> is_RequestException e"
    by (simp add: http_colon sample_urls down_env_def)
  have h2: "\<forall>k<14.
          (\<forall>e. api down_env (length (trace example_world) + k) (BatchClear [A2_H]) = Some e \<longrightarrow> is_APIError e)
          \<and> (\<exists>e. api down_env (length (trace example_world) + k)
                    (BatchUpdate (sheet_updates example_rows)) = Some e
                 \<and> is_APIError e)"
    by (simp add: down_env_def)
  have h3: "files snapshot_world (lit ''/work/TVPPol_output_20240101.txt'') \<noteq> None
        \<and> (\<forall>k<5. \<exists>e. smtp down_env (length (trace snapshot_world) + 2 * k) = Some e \<and> is_SMTPException e)"
    by (simp add: down_env_def snapshot_world_def)
  from retries_exhausted[of down_env example_world "lit ''http://a''"] h1
  have c1: "\<exists>e. fetch_url down_env (lit ''http://a'') example_world =
              (Inl (RetryError e),
               example_world\<lparr>trace := trace example_world @
                  [HttpGet (lit ''http://a''), Sleep 120, HttpGet (lit ''http://a''), Sleep 120,
                   HttpGet (lit ''http://a''), Sleep 120, HttpGet (lit ''http://a''), Sleep 120,
                   HttpGet (lit ''http://a'')]\<rparr>)
            \<and> http down_env (length (trace example_world) + 8) (lit ''http://a'') = Inl e
            \<and> is_RequestException e"
    by blast
  from retries_exhausted[of down_env example_world _ example_rows] h2
  have c2: "\<exists>e w' t. update_google_sheet down_env example_rows example_world = (Inl (RetryError e), w')
         \<and> is_APIError e
         \<and> trace w' = trace example_world @ t
         \<and> filter (\<lambda>ev. ev \<noteq> Api (BatchUpdate (sheet_updates example_rows))) t
             = [Api (BatchClear [A2_H]), Sleep 120, Api (BatchClear [A2_H]), Sleep 120,
                Api (BatchClear [A2_H]), Sleep 120, Api (BatchClear [A2_H]), Sleep 120,
                Api (BatchClear [A2_H])]"
    by blast
  from retries_exhausted[of down_env snapshot_world _ _ "lit ''/work/TVPPol_output_20240101.txt''" example_config] h3
  have c3: "\<exists>e. send_email_with_attachment down_env example_config
              (lit ''/work/TVPPol_output_20240101.txt'') snapshot_world =
              (Inl (RetryError e),
               snapshot_world\<lparr>trace := trace snapshot_world @
                  [SmtpSession, Sleep 120, SmtpSession, Sleep 120, SmtpSession,
                   Sleep 120, SmtpSession, Sleep 120, SmtpSession]\<rparr>)
            \<and> smtp down_env (length (trace snapshot_world) + 8) = Some e \<and> is_SMTPException e"
    by blast
  from c1 c2 c3 show ?thesis by (intro conjI)
qed

text \<open>With the network down, \<open>fetch_url\<close> ends in \<open>RetryError\<close>, not in the
  \<open>ConnectionError\<close> of its attempts.\<close>

theorem retries_exhausted_counterexample:
  "fst (fetch_url down_env (lit ''http://a'') example_world) = Inl (RetryError ConnectionError)
   \<and> fst (fetch_url down_env (lit ''http://a'') example_world) \<noteq> Inl ConnectionError"
proof -
  have "\<forall>k<5. \<exists>e. http down_env (length (trace example_world) + 2 * k) (lit ''http://a'') = Inl e
      \<and> is_RequestException e"
    by (simp add: http_colon sample_urls down_env_def)
  from fetch_url_exhausted[OF this] show ?thesis
    by (auto simp: http_colon sample_urls down_env_def)
qed




section \<open>Properties of the sheet synchronizer\<close>

lemma write_row_cell:
  "write_row r c vs g r' c' =
     (if r' = r \<and> c \<le> c' \<and> c' < c + length vs
      then (case vs ! (c' - c) of None \<Rightarrow> g r' c' | Some v \<Rightarrow> v) else g r' c')"
proof (induction vs arbitrary: c g)
  case Nil
  show ?case by auto
next
  case (Cons v vs)
  let ?g = "case v of None \<Rightarrow> g | Some s \<Rightarrow> g(r := (g r)(c := s))"
  have step: "write_row r c (v # vs) g r' c' =
      (if r' = r \<and> Suc c \<le> c' \<and> c' < Suc c + length vs
       then (case vs ! (c' - Suc c) of None \<Rightarrow> ?g r' c' | Some v \<Rightarrow> v) else ?g r' c')"
    by (simp only: write_row.simps Cons.IH[of "Suc c" ?g])
  consider "c' < c" | "c' = c" | "c < c'" by linarith
  then show ?case
  proof cases
    case 1
    then show ?thesis unfolding step by (simp split: option.split)
  next
    case 2
    then show ?thesis unfolding step by (simp split: option.split)
  next
    case 3
    then have "(v # vs) ! (c' - c) = vs ! (c' - Suc c)" by (simp add: Suc_diff_le)
    with 3 show ?thesis unfolding step by (auto split: option.split)
  qed
qed

lemma cell_apply_update_row:
  "cell (apply_update s (A_H_row i, [vs])) r c =
     (if r = i \<and> 1 \<le> c \<and> c \<le> length vs
      then (case vs ! (c - 1) of None \<Rightarrow> cell s r c | Some v \<Rightarrow> v) else cell s r c)"
  by (auto simp: apply_update_def A_H_row_def write_row_cell)

lemma row_count_apply_update: "row_count (apply_update s u) = row_count s"
  by (simp add: apply_update_def)

lemma cell_foldl_updates:
  "cell (foldl apply_update s (map (\<lambda>(i, vs). (A_H_row i, [vs])) (enumerate n data))) r c =
     (if n \<le> r \<and> r < n + length data \<and> 1 \<le> c \<and> c \<le> length (data ! (r - n))
      then (case data ! (r - n) ! (c - 1) of None \<Rightarrow> cell s r c | Some v \<Rightarrow> v)
      else cell s r c)"
proof (induction data arbitrary: n s)
  case Nil
  show ?case by auto
next
  case (Cons d ds)
  let ?s = "apply_update s (A_H_row n, [d])"
  have unf: "foldl apply_update s (map (\<lambda>(i, vs). (A_H_row i, [vs])) (enumerate n (d # ds)))
      = foldl apply_update ?s (map (\<lambda>(i, vs). (A_H_row i, [vs])) (enumerate (Suc n) ds))"
    by simp
  have step: "cell (foldl apply_update s (map (\<lambda>(i, vs). (A_H_row i, [vs])) (enumerate n (d # ds)))) r c =
      (if Suc n \<le> r \<and> r < Suc n + length ds \<and> 1 \<le> c \<and> c \<le> length (ds ! (r - Suc n))
       then (case ds ! (r - Suc n) ! (c - 1) of None \<Rightarrow> cell ?s r c | Some v \<Rightarrow> v)
       else cell ?s r c)"
    by (simp only: unf Cons.IH[of ?s "Suc n"])
  consider "r < n" | "r = n" | "n < r" by linarith
  then show ?case
  proof cases
    case 1
    then show ?thesis unfolding step by (auto simp: cell_apply_update_row split: option.split)
  next
    case 2
    then show ?thesis unfolding step by (auto simp: cell_apply_update_row split: option.split)
  next
    case 3
    then have "(d # ds) ! (r - n) = ds ! (r - Suc n)" by (simp add: Suc_diff_le)
    with 3 show ?thesis unfolding step by (auto simp: cell_apply_update_row split: option.split)
  qed
qed

lemma row_count_foldl_updates: "row_count (foldl apply_update s us) = row_count s"
  by (induction us arbitrary: s) (simp_all add: row_count_apply_update)

lemma fits_row_count: "row_count s' = row_count s \<Longrightarrow> fits s' u = fits s u"
  by (simp add: fits_def)

lemma fits_width:
  assumes "list_all (fits s) (map (\<lambda>(i, vs). (A_H_row i, [vs])) (enumerate n data))"
      and "k < length data"
  shows "length (data ! k) \<le> 8"
proof -
  have "(n + k, data ! k) \<in> set (enumerate n data)"
    using assms(2) by (metis nth_enumerate_eq nth_mem length_enumerate)
  moreover from assms(1)
  have "\<forall>x \<in> set (enumerate n data). fits s (case x of (i, vs) \<Rightarrow> (A_H_row i, [vs]))"
    by (simp add: list_all_iff)
  ultimately have "fits s (A_H_row (n + k), [data ! k])" by force
  then show ?thesis by (simp add: fits_def A_H_row_def)
qed

lemma clear_clear: "clear_ranges gs (clear_ranges gs s) = clear_ranges gs s"
  by (simp add: clear_ranges_def fun_eq_iff)

lemma cell_clear_A2H:
  "cell (clear_ranges [A2_H] s) r c = (if in_range A2_H r c then [] else cell s r c)"
  by (simp add: clear_ranges_def)

lemma row_count_clear: "row_count (clear_ranges gs s) = row_count s"
  by (simp add: clear_ranges_def)

lemma synced_cell:
  assumes "list_all (fits s) (sheet_updates data)"
  shows "cell (foldl apply_update (clear_ranges [A2_H] s) (sheet_updates data)) r c =
     (if in_range A2_H r c then dataset_cell data r c else cell s r c)"
proof -
  have w: "length (data ! (r - 2)) \<le> 8" if "r < 2 + length data" "2 \<le> r"
    using fits_width[OF assms[unfolded sheet_updates_def], of "r - 2"] that by simp
  show ?thesis
    unfolding sheet_updates_def cell_foldl_updates cell_clear_A2H dataset_cell_def
    using w by (auto simp: in_range_def A2_H_def split: option.splits)
qed

lemma synced_twice:
  assumes "list_all (fits s) (sheet_updates data)"
  shows "foldl apply_update
           (clear_ranges [A2_H] (foldl apply_update (clear_ranges [A2_H] s) (sheet_updates data)))
           (sheet_updates data)
         = foldl apply_update (clear_ranges [A2_H] s) (sheet_updates data)"
proof -
  let ?s1 = "foldl apply_update (clear_ranges [A2_H] s) (sheet_updates data)"
  have rc: "row_count ?s1 = row_count s"
    by (simp add: row_count_foldl_updates row_count_clear)
  have f1: "list_all (fits ?s1) (sheet_updates data)"
    using assms fits_row_count[OF rc] by (simp add: list_all_iff)
  have "cell (foldl apply_update (clear_ranges [A2_H] ?s1) (sheet_updates data)) = cell ?s1"
    by (simp add: fun_eq_iff synced_cell[OF f1] synced_cell[OF assms])
  moreover have "row_count (foldl apply_update (clear_ranges [A2_H] ?s1) (sheet_updates data)) = row_count ?s1"
    by (simp add: row_count_foldl_updates row_count_clear)
  ultimately show ?thesis by (simp add: worksheet.equality)
qed

lemma retry_call_returns:
  assumes "retry_call m d p fn n w = (Inr v, w')" and "I w"
      and step: "\<And>w e w1. I w \<Longrightarrow> fn w = (Inl e, w1) \<Longrightarrow> I (sleep d w1)"
  shows "\<exists>w0. I w0 \<and> fn w0 = (Inr v, w')"
  using assms(1,2)
proof (induction "m - n" arbitrary: n w)
  case 0
  obtain r w1 where f: "fn w = (r, w1)" by (cases "fn w")
  show ?case
  proof (cases r)
    case (Inr v0)
    with f retry_call_Inr[where fn=fn and w=w and v=v0 and w'=w1 and m=m and d=d and p=p and n=n] "0.prems"
    show ?thesis by auto
  next
    case (Inl e)
    show ?thesis
    proof (cases "p e")
      case True
      from retry_call_stop[where fn=fn and w=w and e=e and w'=w1 and m=m and d=d and p=p and n=n]
        f Inl True "0.hyps" "0.prems"(1)
      show ?thesis by simp
    next
      case False
      from retry_call_raise[where fn=fn and w=w and e=e and w'=w1 and m=m and d=d and p=p and n=n]
        f Inl False "0.prems"(1)
      show ?thesis by simp
    qed
  qed
next
  case (Suc k)
  obtain r w1 where f: "fn w = (r, w1)" by (cases "fn w")
  show ?case
  proof (cases r)
    case (Inr v0)
    with f retry_call_Inr[where fn=fn and w=w and v=v0 and w'=w1 and m=m and d=d and p=p and n=n] Suc.prems
    show ?thesis by auto
  next
    case (Inl e)
    show ?thesis
    proof (cases "p e")
      case True
      have lt: "n < m" using Suc.hyps(2) by simp
      from retry_call_again[where fn=fn and w=w and e=e and w'=w1 and m=m and d=d and p=p and n=n]
        f Inl True lt Suc.prems(1)
      have r: "retry_call m d p fn (Suc n) (sleep d w1) = (Inr v, w')" by simp
      have i: "I (sleep d w1)" using step[OF Suc.prems(2)] f Inl by simp
      have k: "k = m - Suc n" using Suc.hyps(2) by simp
      from Suc.hyps(1)[OF k r i] show ?thesis .
    next
      case False
      from retry_call_raise[where fn=fn and w=w and e=e and w'=w1 and m=m and d=d and p=p and n=n]
        f Inl False Suc.prems(1)
      show ?thesis by simp
    qed
  qed
qed

lemma update_body_Inr:
  assumes "update_google_sheet_body env data w = (Inr u, w')"
  shows "sheet w' = foldl apply_update (clear_ranges [A2_H] (sheet w)) (sheet_updates data)
         \<and> list_all (fits (sheet w)) (sheet_updates data)"
proof -
  have "list_all (fits (clear_ranges [A2_H] (sheet w))) (sheet_updates data)
      = list_all (fits (sheet w)) (sheet_updates data)"
    using fits_row_count[OF row_count_clear] by (simp add: list_all_iff)
  with assms show ?thesis
    by (auto simp: update_google_sheet_body_def batch_clear_def batch_update_def sheet_updates_def
        emit_def logger_info_def split: option.splits if_splits)
qed

lemma update_body_Inl:
  assumes "update_google_sheet_body env data w = (Inl e, w')"
  shows "sheet w' = sheet w \<or> sheet w' = clear_ranges [A2_H] (sheet w)"
  using assms
  by (auto simp: update_google_sheet_body_def batch_clear_def batch_update_def
      emit_def logger_info_def split: option.splits if_splits)

lemma update_google_sheet_Inr:
  assumes "update_google_sheet env data w = (Inr u, w')"
  shows "sheet w' = foldl apply_update (clear_ranges [A2_H] (sheet w)) (sheet_updates data)
         \<and> list_all (fits (sheet w)) (sheet_updates data)"
proof -
  define I where "I = (\<lambda>x::world. sheet x = sheet w \<or> sheet x = clear_ranges [A2_H] (sheet w))"
  have "\<exists>w0. I w0 \<and> update_google_sheet_body env data w0 = (Inr u, w')"
  proof (rule retry_call_returns[where I=I])
    show "retry_call 5 120 is_APIError (update_google_sheet_body env data) 1 w = (Inr u, w')"
      using assms by (simp add: update_google_sheet_def)
    show "I w" by (simp add: I_def)
  next
    fix x e x1 assume "I x" "update_google_sheet_body env data x = (Inl e, x1)"
    then show "I (sleep 120 x1)"
      using update_body_Inl[of env data x e x1]
      by (auto simp: I_def sleep_def emit_def clear_clear)
  qed
  then obtain w0 where w0: "I w0" "update_google_sheet_body env data w0 = (Inr u, w')" by blast
  from w0(1) have c: "clear_ranges [A2_H] (sheet w0) = clear_ranges [A2_H] (sheet w)"
    by (auto simp: I_def clear_clear)
  from w0(1) have rc: "row_count (sheet w0) = row_count (sheet w)"
    by (auto simp: I_def row_count_clear)
  from update_body_Inr[OF w0(2)] c fits_row_count[OF rc] show ?thesis
    by (simp add: list_all_iff)
qed

text \<open>Claim C9. Synchronizing the sheet twice in a row with the same dataset leaves it
  as synchronizing once does: when both calls of \<open>update_google_sheet\<close> return, the sheet
  after the second is the sheet after the first, whatever the sheet held before and
  whatever attempts failed on the way; and what the range \<open>A2:H\<close> holds after a call is a
  function of the dataset alone, row \<open>i\<close> of the dataset in \<open>A(i+1):H(i+1)\<close> and blank
  cells elsewhere.\<close>

theorem update_google_sheet_idempotent:
  assumes "update_google_sheet env data w = (Inr (), w1)"
      and "update_google_sheet env data w1 = (Inr (), w2)"
  shows "sheet w2 = sheet w1
         \<and> (\<forall>r c. in_range A2_H r c \<longrightarrow> cell (sheet w1) r c = dataset_cell data r c)"
proof -
  from update_google_sheet_Inr[OF assms(1)]
  have s1: "sheet w1 = foldl apply_update (clear_ranges [A2_H] (sheet w)) (sheet_updates data)"
    and f: "list_all (fits (sheet w)) (sheet_updates data)" by simp_all
  from update_google_sheet_Inr[OF assms(2)]
  have s2: "sheet w2 = foldl apply_update (clear_ranges [A2_H] (sheet w1)) (sheet_updates data)"
    by simp
  have "sheet w2 = sheet w1" unfolding s2 unfolding s1 by (rule synced_twice[OF f])
  moreover have "\<forall>r c. in_range A2_H r c \<longrightarrow> cell (sheet w1) r c = dataset_cell data r c"
    unfolding s1 by (simp add: synced_cell[OF f])
  ultimately show ?thesis by simp
qed

lemma update_google_sheet_ok:
  assumes "api env (length (trace w)) (BatchClear [A2_H]) = None"
      and "api env (Suc (length (trace w))) (BatchUpdate (sheet_updates data)) = None"
      and "list_all (fits (sheet w)) (sheet_updates data)"
  shows "update_google_sheet env data w =
     (Inr (), w\<lparr>sheet := foldl apply_update (clear_ranges [A2_H] (sheet w)) (sheet_updates data),
                 trace := trace w @ [Api (BatchClear [A2_H]), Api (BatchUpdate (sheet_updates data))],
                 log := log w @ [(''INFO'', lit ''Sheet updated successfully.'')]\<rparr>)"
proof -
  have "list_all (fits (clear_ranges [A2_H] (sheet w))) (sheet_updates data)"
    using assms(3) fits_row_count[OF row_count_clear] by (simp add: list_all_iff)
  with assms(1,2) have "update_google_sheet_body env data w =
     (Inr (), w\<lparr>sheet := foldl apply_update (clear_ranges [A2_H] (sheet w)) (sheet_updates data),
                 trace := trace w @ [Api (BatchClear [A2_H]), Api (BatchUpdate (sheet_updates data))],
                 log := log w @ [(''INFO'', lit ''Sheet updated successfully.'')]\<rparr>)"
    by (simp add: update_google_sheet_body_def batch_clear_def batch_update_def sheet_updates_def
        emit_def logger_info_def)
  then show ?thesis unfolding update_google_sheet_def by (rule retry_call_Inr)
qed

lemma update_google_sheet_ok_env:
  assumes "list_all (fits (sheet w)) (sheet_updates data)"
  shows "update_google_sheet ok_env data w = (Inr (), snd (update_google_sheet ok_env data w))"
    and "row_count (sheet (snd (update_google_sheet ok_env data w))) = row_count (sheet w)"
proof -
  have "api ok_env (length (trace w)) (BatchClear [A2_H]) = None"
    and "api ok_env (Suc (length (trace w))) (BatchUpdate (sheet_updates data)) = None"
    by (simp_all add: ok_env_def)
  from update_google_sheet_ok[OF this assms]
  show "update_google_sheet ok_env data w = (Inr (), snd (update_google_sheet ok_env data w))"
    and "row_count (sheet (snd (update_google_sheet ok_env data w))) = row_count (sheet w)"
    by (simp_all add: row_count_foldl_updates row_count_clear)
qed

lemma example_rows_fit:
  "row_count s = 4 \<Longrightarrow> list_all (fits s) (sheet_updates example_rows)"
  by (simp add: sheet_updates_def example_rows_def fits_def A_H_row_def)

theorem update_google_sheet_idempotent_witness:
  "sheet (snd (update_google_sheet ok_env example_rows
                 (snd (update_google_sheet ok_env example_rows stale_world))))
     = sheet (snd (update_google_sheet ok_env example_rows stale_world))
   \<and> cell (sheet (snd (update_google_sheet ok_env example_rows stale_world))) 3 2 = lit ''1100''
   \<and> cell (sheet (snd (update_google_sheet ok_env example_rows stale_world))) 3 4 = []
   \<and> cell (sheet (snd (update_google_sheet ok_env example_rows stale_world))) 4 8 = []"
proof -
  let ?w1 = "snd (update_google_sheet ok_env example_rows stale_world)"
  let ?w2 = "snd (update_google_sheet ok_env example_rows ?w1)"
  have f0: "list_all (fits (sheet stale_world)) (sheet_updates example_rows)"
    by (rule example_rows_fit) (simp add: stale_world_def)
  note r1 = update_google_sheet_ok_env[OF f0]
  have f1: "list_all (fits (sheet ?w1)) (sheet_updates example_rows)"
    by (rule example_rows_fit) (simp only: r1(2), simp add: stale_world_def)
  note r2 = update_google_sheet_ok_env[OF f1]
  from update_google_sheet_idempotent[OF r1(1) r2(1)]
  have same: "sheet ?w2 = sheet ?w1"
    and cells: "\<And>r c. in_range A2_H r c \<Longrightarrow> cell (sheet ?w1) r c = dataset_cell example_rows r c"
    by simp_all
  have "cell (sheet ?w1) 3 2 = lit ''1100''"
    by (subst cells) (simp_all add: in_range_def A2_H_def dataset_cell_def example_rows_def)
  moreover have "cell (sheet ?w1) 3 4 = []"
    by (subst cells) (simp_all add: in_range_def A2_H_def dataset_cell_def example_rows_def)
  moreover have "cell (sheet ?w1) 4 8 = []"
    by (subst cells) (simp_all add: in_range_def A2_H_def dataset_cell_def example_rows_def)
  ultimately show ?thesis using same by simp
qed

section \<open>Properties of the snapshot writer\<close>

lemma split_on_nonempty: "split_on sep s \<noteq> []"
  by (induction s) (auto split: list.splits)

lemma split_on_no_sep: "sep \<notin> set a \<Longrightarrow> split_on sep a = [a]"
  by (induction a) auto

lemma split_on_append: "sep \<notin> set a \<Longrightarrow> split_on sep (a @ sep # rest) = a # split_on sep rest"
  by (induction a) auto

lemma split_join:
  assumes "vs \<noteq> []" and "\<forall>f \<in> set vs. sep \<notin> set f"
  shows "split_on sep (join [sep] vs) = vs"
  using assms
proof (induction "[sep]" vs rule: join.induct)
  case 1
  then show ?case by simp
next
  case (2 x)
  then show ?case by (simp add: split_on_no_sep)
next
  case (3 x y ys)
  then show ?case by (simp add: split_on_append)
qed

lemma set_join: "set (join sep vs) \<subseteq> set sep \<union> \<Union> (set ` set vs)"
  by (induction sep vs rule: join.induct) auto

lemma split_lines:
  assumes "\<forall>l \<in> set ls. 10 \<notin> set l"
  shows "split_on 10 (concat (map (\<lambda>l. l @ [10]) ls)) = ls @ [[]]"
  using assms by (induction ls) (simp_all add: split_on_append)

lemma text_lines_concat:
  assumes "\<forall>l \<in> set ls. 10 \<notin> set l"
  shows "text_lines (concat (map (\<lambda>l. l @ [10]) ls)) = ls"
  by (simp add: text_lines_def split_lines[OF assms])

lemma code_units_le_bytes:
  "code_units (concat (map le_bytes us) @ bs) = map_option ((@) us) (code_units bs)"
proof (induction us)
  case Nil
  show ?case by (simp add: option.map_ident)
next
  case (Cons u us)
  have "code_units (le_bytes u @ rest) = map_option ((#) u) (code_units rest)" for rest
    by (simp add: le_bytes_def)
  then show ?case by (simp add: Cons.IH option.map_comp comp_def)
qed

lemma decode_units_cp:
  assumes "encodable c"
  shows "decode_units (utf16_units c @ us) = map_option ((#) c) (decode_units us)"
proof (cases "c < 0x10000")
  case True
  with assms have "c < 0xD800 \<or> 0xE000 \<le> c" by (simp add: encodable_def)
  with True show ?thesis by (simp add: utf16_units_def)
next
  case False
  define x where "x = c - 0x10000"
  have x: "x < 0x100000" and c: "c = 0x10000 + x" using assms False by (simp_all add: encodable_def x_def)
  have hi: "x div 0x400 < 0x400" using x by simp
  have lo: "x mod 0x400 < 0x400" by simp
  have rebuilt: "0x10000 + (x div 0x400) * 0x400 + x mod 0x400 = c" using c by simp
  have u: "utf16_units c = [0xD800 + x div 0x400, 0xDC00 + x mod 0x400]"
    using False by (simp add: utf16_units_def x_def)
  show ?thesis unfolding u using hi lo rebuilt by simp
qed

lemma decode_units_string:
  assumes "\<forall>c \<in> set s. encodable c"
  shows "decode_units (concat (map utf16_units s)) = Some s"
  using assms by (induction s) (simp_all add: decode_units_cp del: decode_units.simps(2))

lemma utf_16_le_bytes_units:
  "utf_16_le_bytes s = concat (map le_bytes (concat (map utf16_units s)))"
  by (induction s) (simp_all add: utf_16_le_bytes_def)

lemma decode_le_bytes:
  assumes "\<forall>c \<in> set s. encodable c"
  shows "Option.bind (code_units (utf_16_le_bytes s)) decode_units = Some s"
proof -
  have "code_units (utf_16_le_bytes s) = Some (concat (map utf16_units s))"
    using code_units_le_bytes[of "concat (map utf16_units s)" "[]"]
    by (simp add: utf_16_le_bytes_units)
  then show ?thesis by (simp add: decode_units_string[OF assms])
qed

lemma utf_16_le_bytes_append: "utf_16_le_bytes (a @ b) = utf_16_le_bytes a @ utf_16_le_bytes b"
  by (simp add: utf_16_le_bytes_def)

lemma utf_16_le_bytes_Nil: "utf_16_le_bytes [] = []"
  by (simp add: utf_16_le_bytes_def)

lemma utf_16_le_bytes_Cons:
  "utf_16_le_bytes (c # s) = concat (map le_bytes (utf16_units c)) @ utf_16_le_bytes s"
  by (simp add: utf_16_le_bytes_def)

lemma utf_16_le_encode_ok:
  assumes "\<forall>c \<in> set s. encodable c"
  shows "utf_16_le_encode s = Inr (utf_16_le_bytes s)"
  using assms by (induction s) (simp_all add: utf_16_le_bytes_def)

lemma utf_16_decode_BOM:
  assumes "\<forall>c \<in> set s. encodable c"
  shows "utf_16_decode (BOM_UTF16_LE @ utf_16_le_bytes s) = Some s"
  by (simp add: utf_16_decode_def BOM_UTF16_LE_def decode_le_bytes[OF assms])

lemma utf_16_decode_empty: "utf_16_decode [] = Some []"
  by (simp add: utf_16_decode_def)

lemma file_write_ok:
  assumes "\<forall>c \<in> set s. encodable c" and "files w path = Some old"
  shows "file_write path s w =
     (Inr (), w\<lparr>files := (files w)(path \<mapsto> (if old = [] then BOM_UTF16_LE else old) @ utf_16_le_bytes s)\<rparr>)"
  using assms by (simp add: file_write_def utf_16_le_encode_ok)

lemma write_lines_ok:
  assumes "\<forall>vs \<in> set rows. \<forall>c \<in> set (join [9] vs @ [10]). encodable c"
      and "files w path = Some old"
  shows "write_lines path rows w =
     (Inr (), if rows = [] then w
              else w\<lparr>files := (files w)(path \<mapsto>
                     (if old = [] then BOM_UTF16_LE else old) @ utf_16_le_bytes (snapshot_text rows))\<rparr>)"
  using assms
proof (induction rows arbitrary: w old)
  case Nil
  show ?case by simp
next
  case (Cons vs rows)
  let ?line = "join [9] vs @ [10]"
  let ?old1 = "(if old = [] then BOM_UTF16_LE else old) @ utf_16_le_bytes ?line"
  let ?w1 = "w\<lparr>files := (files w)(path \<mapsto> ?old1)\<rparr>"
  have enc: "\<forall>c \<in> set ?line. encodable c" using Cons.prems(1) by simp
  have fw: "file_write path ?line w = (Inr (), ?w1)"
    by (rule file_write_ok[OF enc Cons.prems(2)])
  have ne: "?old1 \<noteq> []" by (simp add: BOM_UTF16_LE_def)
  have f1: "files ?w1 path = Some ?old1" by simp
  have rest: "\<forall>vs \<in> set rows. \<forall>c \<in> set (join [9] vs @ [10]). encodable c"
    using Cons.prems(1) by simp
  note IH = Cons.IH[OF rest f1]
  have tx: "snapshot_text (vs # rows) = ?line @ snapshot_text rows"
    by (simp add: snapshot_text_def)
  show ?case
  proof (cases "rows = []")
    case True
    then show ?thesis using fw by (simp add: snapshot_text_def)
  next
    case False
    have "write_lines path (vs # rows) w = write_lines path rows ?w1"
      using fw by simp
    also have "\<dots> = (Inr (), ?w1\<lparr>files := (files ?w1)(path \<mapsto> ?old1 @ utf_16_le_bytes (snapshot_text rows))\<rparr>)"
      using IH False ne by simp
    finally show ?thesis
      by (simp add: tx utf_16_le_bytes_append utf_16_le_bytes_Cons utf_16_le_bytes_Nil)
  qed
qed

lemma encodable_line:
  assumes "\<forall>f \<in> set vs. \<forall>c \<in> set f. encodable c"
  shows "\<forall>c \<in> set (join [9] vs @ [10]). encodable c"
proof -
  have "encodable 9" "encodable 10" by (simp_all add: encodable_def)
  moreover have "set (join [9] vs) \<subseteq> set [9] \<union> \<Union> (set ` set vs)" by (rule set_join)
  ultimately show ?thesis using assms by auto
qed

lemma save_data_to_txt_file:
  assumes "\<forall>vs \<in> set data. \<forall>f \<in> set vs. \<forall>c \<in> set f. encodable c"
  shows "fst (save_data_to_txt cfg data dir w) = Inr (snapshot_path cfg dir)"
    and "files (snd (save_data_to_txt cfg data dir w)) (snapshot_path cfg dir) =
           Some (if data = [] then [] else BOM_UTF16_LE @ utf_16_le_bytes (snapshot_text data))"
proof -
  let ?p = "snapshot_path cfg dir"
  let ?w1 = "if files w ?p \<noteq> None then unlink ?p w else w"
  let ?w2 = "open_w ?p ?w1"
  have enc: "\<forall>vs \<in> set data. \<forall>c \<in> set (join [9] vs @ [10]). encodable c"
    using assms encodable_line by blast
  have f2: "files ?w2 ?p = Some []" by (simp add: open_w_def emit_def)
  note wl = write_lines_ok[OF enc f2]
  have "save_data_to_txt cfg data dir w =
      (case write_lines ?p data ?w2 of
         (Inl e, w3) \<Rightarrow> (Inl e, w3)
       | (Inr _, w3) \<Rightarrow> (Inr ?p, logger_info (lit ''Data saved to '' @ ?p) w3))"
    by (simp only: save_data_to_txt_def Let_def snapshot_path_def)
  then have run: "save_data_to_txt cfg data dir w =
      (Inr ?p, logger_info (lit ''Data saved to '' @ ?p) (snd (write_lines ?p data ?w2)))"
    by (simp only: wl) simp
  show "fst (save_data_to_txt cfg data dir w) = Inr ?p" using run by simp
  show "files (snd (save_data_to_txt cfg data dir w)) ?p =
           Some (if data = [] then [] else BOM_UTF16_LE @ utf_16_le_bytes (snapshot_text data))"
    unfolding run using wl f2 by (simp add: logger_info_def)
qed

lemma encodable_text:
  assumes "\<forall>vs \<in> set data. \<forall>f \<in> set vs. \<forall>c \<in> set f. encodable c"
  shows "\<forall>c \<in> set (snapshot_text data). encodable c"
proof
  fix c assume "c \<in> set (snapshot_text data)"
  then obtain vs where vs: "vs \<in> set data" "c \<in> set (join [9] vs @ [10])"
    unfolding snapshot_text_def set_concat set_map by blast
  from assms vs(1) have "\<forall>f \<in> set vs. \<forall>c \<in> set f. encodable c" by blast
  from encodable_line[OF this] vs(2) show "encodable c" by blast
qed

lemma read_snapshot_written:
  assumes "\<forall>vs \<in> set data. \<forall>f \<in> set vs. \<forall>c \<in> set f. encodable c"
  shows "read_snapshot (if data = [] then [] else BOM_UTF16_LE @ utf_16_le_bytes (snapshot_text data))
     = Some (map (split_on 9) (text_lines (snapshot_text data)))"
proof (cases "data = []")
  case True
  then show ?thesis by (simp add: read_snapshot_def utf_16_decode_empty snapshot_text_def)
next
  case False
  then show ?thesis
    by (simp add: read_snapshot_def utf_16_decode_BOM[OF encodable_text[OF assms]])
qed

lemma join_no_newline:
  assumes "\<forall>f \<in> set vs. 10 \<notin> set f"
  shows "10 \<notin> set (join [9] vs)"
proof -
  have "set (join [9] vs) \<subseteq> set [9] \<union> \<Union> (set ` set vs)" by (rule set_join)
  with assms show ?thesis by auto
qed

text \<open>Claim C6, as the code has it. For a dataset of records of 8 fields in which no
  field holds a tab or a line feed, and every character can be encoded (none is a
  surrogate), \<open>save_data_to_txt\<close> returns the path of the snapshot, and reading the file
  back (decoding UTF-16, splitting into lines, splitting each line at the tabs) gives the
  dataset again: as many rows, 8 fields each, field for field. Nothing escapes a tab or a
  line feed inside a field, so without that condition the round trip fails.\<close>

theorem save_data_to_txt_round_trip:
  assumes "\<forall>vs \<in> set data. length vs = 8
             \<and> (\<forall>f \<in> set vs. 9 \<notin> set f \<and> 10 \<notin> set f \<and> (\<forall>c \<in> set f. encodable c))"
  shows "fst (save_data_to_txt cfg data dir w) = Inr (snapshot_path cfg dir)
       \<and> Option.bind (files (snd (save_data_to_txt cfg data dir w)) (snapshot_path cfg dir)) read_snapshot
           = Some data"
proof -
  have enc: "\<forall>vs \<in> set data. \<forall>f \<in> set vs. \<forall>c \<in> set f. encodable c"
    using assms by blast
  have nl: "\<forall>l \<in> set (map (join [9]) data). 10 \<notin> set l"
  proof
    fix l assume "l \<in> set (map (join [9]) data)"
    then obtain vs where vs: "vs \<in> set data" "l = join [9] vs" by auto
    from assms vs(1) have "\<forall>f \<in> set vs. 10 \<notin> set f" by blast
    from join_no_newline[OF this] vs(2) show "10 \<notin> set l" by simp
  qed
  have "snapshot_text data = concat (map (\<lambda>l. l @ [10]) (map (join [9]) data))"
    by (simp add: snapshot_text_def comp_def)
  then have lines: "text_lines (snapshot_text data) = map (join [9]) data"
    using text_lines_concat[OF nl] by simp
  have fields: "map (split_on 9) (map (join [9]) data) = data"
  proof -
    have "split_on 9 (join [9] vs) = vs" if "vs \<in> set data" for vs
    proof (rule split_join)
      from assms that have "length vs = 8" by blast
      then show "vs \<noteq> []" by auto
      from assms that show "\<forall>f \<in> set vs. 9 \<notin> set f" by blast
    qed
    then show ?thesis by (simp add: map_idI)
  qed
  from save_data_to_txt_file[OF enc, of cfg dir w] read_snapshot_written[OF enc] lines fields
  show ?thesis by simp
qed

lemma plain_rows_ok:
  "\<forall>vs \<in> set plain_rows. length vs = 8
     \<and> (\<forall>f \<in> set vs. 9 \<notin> set f \<and> 10 \<notin> set f \<and> (\<forall>c \<in> set f. encodable c))"
  by (simp add: plain_rows_def lit_def encodable_def)

theorem save_data_to_txt_round_trip_witness:
  "fst (save_data_to_txt example_config plain_rows (lit ''/work'') example_world)
     = Inr (snapshot_path example_config (lit ''/work''))
   \<and> Option.bind (files (snd (save_data_to_txt example_config plain_rows (lit ''/work'') example_world))
                   (snapshot_path example_config (lit ''/work''))) read_snapshot
       = Some plain_rows"
  by (rule save_data_to_txt_round_trip[OF plain_rows_ok])

text \<open>One record whose description holds a tab: the file reads back as a row of 9
  fields.\<close>

theorem save_data_to_txt_round_trip_counterexample:
  "Option.bind (files (snd (save_data_to_txt example_config
                              [[lit ''d'', lit ''t'', lit ''T'', [97, 9, 98], lit ''e'', lit ''y'', lit ''r'',
                                lit ''g'']]
                              (lit ''/work'') example_world))
                 (snapshot_path example_config (lit ''/work''))) read_snapshot
     = Some [[lit ''d'', lit ''t'', lit ''T'', [97], [98], lit ''e'', lit ''y'', lit ''r'', lit ''g'']]"
proof -
  have enc: "\<forall>vs \<in> set tabbed_rows. \<forall>f \<in> set vs. \<forall>c \<in> set f. encodable c"
    by (simp add: tabbed_rows_def lit_def encodable_def)
  have "map (split_on 9) (text_lines (snapshot_text tabbed_rows))
      = [[lit ''d'', lit ''t'', lit ''T'', [97], [98], lit ''e'', lit ''y'', lit ''r'', lit ''g'']]"
    by (simp add: tabbed_rows_def snapshot_text_def text_lines_def lit_def)
  with save_data_to_txt_file(2)[OF enc, of example_config "lit ''/work''" example_world]
    read_snapshot_written[OF enc]
  show ?thesis by (simp add: tabbed_rows_def)
qed

section \<open>Properties of the run\<close>

lemma fetch_only_refl: "fetch_only w w"
  by (simp add: fetch_only_def)

lemma fetch_only_trans: "fetch_only a b \<Longrightarrow> fetch_only b c \<Longrightarrow> fetch_only a c"
  by (auto simp: fetch_only_def)

lemma fetch_only_log: "fetch_only w (w\<lparr>log := l\<rparr>)"
  by (simp add: fetch_only_def)

lemma fetch_only_emit: "fetch_event ev \<Longrightarrow> fetch_only w (emit ev w)"
  by (simp add: fetch_only_def emit_def)

lemma retry_call_preserves:
  assumes body: "\<And>w r w'. fn w = (r, w') \<Longrightarrow> R w w'"
      and slept: "\<And>w. R w (sleep d w)"
      and trans: "\<And>a b c. R a b \<Longrightarrow> R b c \<Longrightarrow> R a c"
      and run: "retry_call m d p fn n w = (r, w')"
  shows "R w w'"
  using run
proof (induction "m - n" arbitrary: n w)
  case 0
  obtain r1 w1 where f: "fn w = (r1, w1)" by (cases "fn w")
  have "w' = w1"
    using "0.prems" "0.hyps" f by (subst (asm) retry_call.simps) (auto split: sum.splits if_splits)
  with body[OF f] show ?case by simp
next
  case (Suc k)
  obtain r1 w1 where f: "fn w = (r1, w1)" by (cases "fn w")
  show ?case
  proof (cases "\<exists>e. r1 = Inl e \<and> p e \<and> n < m")
    case True
    then obtain e where e: "r1 = Inl e" "p e" "n < m" by blast
    from retry_call_again[where fn=fn and w=w and e=e and w'=w1 and m=m and d=d and p=p and n=n]
      f e Suc.prems
    have r: "retry_call m d p fn (Suc n) (sleep d w1) = (r, w')" by simp
    have k: "k = m - Suc n" using Suc.hyps(2) by simp
    from Suc.hyps(1)[OF k r] have "R (sleep d w1) w'" .
    with body[OF f] slept[of w1] show ?thesis by (blast intro: trans)
  next
    case False
    have "w' = w1"
      using Suc.prems False f by (subst (asm) retry_call.simps) (auto split: sum.splits if_splits)
    with body[OF f] show ?thesis by simp
  qed
qed

lemma fetch_url_only: "fetch_url env url w = (r, w') \<Longrightarrow> fetch_only w w'"
  unfolding fetch_url_def
proof (rule retry_call_preserves[where R=fetch_only])
  fix w r w' assume "fetch_url_body env url w = (r, w')"
  then show "fetch_only w w'"
    by (auto simp: fetch_url_body_def requests_get_def logger_info_def emit_def fetch_only_def
        split: sum.splits)
next
  fix w show "fetch_only w (sleep 120 w)" by (simp add: sleep_def fetch_only_emit)
qed (blast intro: fetch_only_trans)+

lemma warn_if_None_only: "fetch_only w (warn_if_None x m w)"
  by (simp add: warn_if_None_log fetch_only_log)

lemma data_row_of_only: "fetch_only w (snd (data_row_of rec title w))"
  by (simp add: data_row_of_def Let_def warn_if_None_log fetch_only_def)

lemma parse_records_only: "parse_records records acc w = (r, w') \<Longrightarrow> fetch_only w w'"
proof (induction records arbitrary: acc w)
  case Nil
  then show ?case by (simp add: fetch_only_refl)
next
  case (Cons rec records)
  show ?case
  proof (cases "find_first (lit ''TITEL'') rec")
    case None
    with Cons.prems show ?thesis by (simp add: fetch_only_refl)
  next
    case (Some titel)
    show ?thesis
    proof (cases "text_of titel = Some FILLER_TITLE")
      case True
      with Some Cons.prems Cons.IH show ?thesis by simp
    next
      case False
      with Some Cons.prems
      have "parse_records records (acc @ [fst (data_row_of rec (text_of titel) w)])
              (snd (data_row_of rec (text_of titel) w)) = (r, w')" by simp
      from Cons.IH[OF this] data_row_of_only[of w rec "text_of titel"]
      show ?thesis by (blast intro: fetch_only_trans)
    qed
  qed
qed

lemma parse_xml_content_only: "parse_xml_content xml w = (r, w') \<Longrightarrow> fetch_only w w'"
proof (cases xml)
  case Malformed
  assume "parse_xml_content xml w = (r, w')"
  with Malformed show ?thesis by (simp add: parse_xml_content_def fetch_only_refl)
next
  case (Document root)
  assume "parse_xml_content xml w = (r, w')"
  with Document have "parse_records (findall (lit ''prrecord'') root) []
      (logger_info (lit ''Count of records: '' @ str_nat (length (findall (lit ''prrecord'') root))) w)
      = (r, w')"
    by (simp add: parse_xml_content_def Let_def)
  from parse_records_only[OF this] show ?thesis
    by (auto simp: logger_info_def intro: fetch_only_trans fetch_only_log)
qed

lemma fetch_all_only: "fetch_all env urls acc w = (r, w') \<Longrightarrow> fetch_only w w'"
proof (induction urls arbitrary: acc w)
  case Nil
  then show ?case by (simp add: fetch_only_refl)
next
  case (Cons url urls)
  show ?case
  proof (cases "url = []")
    case True
    with Cons show ?thesis by simp
  next
    case False
    obtain r1 w1 where f: "fetch_url env url w = (r1, w1)" by (cases "fetch_url env url w")
    note o1 = fetch_url_only[OF f]
    show ?thesis
    proof (cases r1)
      case (Inl e)
      with f False Cons.prems o1 show ?thesis by simp
    next
      case (Inr response)
      obtain r2 w2 where g: "parse_xml_content (content response) w1 = (r2, w2)"
        by (cases "parse_xml_content (content response) w1")
      note o2 = parse_xml_content_only[OF g]
      show ?thesis
      proof (cases r2)
        case (Inl e)
        with f g Inr False Cons.prems have "w' = w2" by simp
        with o1 o2 show ?thesis by (blast intro: fetch_only_trans)
      next
        case (Inr rows)
        with f g \<open>r1 = Inr response\<close> False Cons.prems
        have "fetch_all env urls (acc @ rows) w2 = (r, w')" by simp
        from Cons.IH[OF this] o1 o2 show ?thesis by (blast intro: fetch_only_trans)
      qed
    qed
  qed
qed

lemma col_values_only: "col_values env n w = (r, w') \<Longrightarrow> fetch_only w w'"
  by (auto simp: col_values_def fetch_only_emit split: option.splits)


lemma stale_column:
  "strip_trailing (\<lambda>v. v = []) (map (\<lambda>r. cell (sheet stale_world) r 13) [1 ..< Suc (row_count (sheet stale_world))])
     = [lit ''URLs'', lit ''http://a'']"
  by (simp add: stale_world_def strip_trailing_def upt_conv_Cons lit_def)

lemma col_values_served:
  assumes "api env (length (trace w)) (ColValues n) = None"
  shows "col_values env n w =
     (Inr (strip_trailing (\<lambda>v. v = []) (map (\<lambda>r. cell (sheet w) r n) [1 ..< Suc (row_count (sheet w))])),
      emit (Api (ColValues n)) w)"
  using assms by (simp add: col_values_def)




lemma utf_16_le_encode_Inr:
  "utf_16_le_encode s = Inr bs \<Longrightarrow> \<forall>c \<in> set s. encodable c"
  by (induction s arbitrary: bs) (auto split: if_splits sum.splits)

lemma write_lines_Inr:
  "write_lines path rows w = (Inr u, w') \<Longrightarrow>
     \<forall>vs \<in> set rows. \<forall>c \<in> set (join [9] vs @ [10]). encodable c"
proof (induction rows arbitrary: w)
  case Nil
  show ?case by simp
next
  case (Cons vs rows)
  obtain r1 w1 where f: "file_write path (join [9] vs @ [10]) w = (r1, w1)"
    by (cases "file_write path (join [9] vs @ [10]) w")
  with Cons.prems obtain u1 where r1: "r1 = Inr u1" by (cases r1) auto
  from f r1 have "\<exists>bs. utf_16_le_encode (join [9] vs @ [10]) = Inr bs"
    by (auto simp: file_write_def split: sum.splits)
  then have here: "\<forall>c \<in> set (join [9] vs @ [10]). encodable c"
    using utf_16_le_encode_Inr by blast
  from Cons.prems f r1 have "write_lines path rows w1 = (Inr u, w')" by simp
  from Cons.IH[OF this] here show ?case by simp
qed

lemma save_data_to_txt_lines:
  assumes enc: "\<forall>vs \<in> set data. \<forall>c \<in> set (join [9] vs @ [10]). encodable c"
  shows "fst (save_data_to_txt cfg data dir w) = Inr (snapshot_path cfg dir)"
    and "files (snd (save_data_to_txt cfg data dir w))
           = (files w)(snapshot_path cfg dir \<mapsto> snapshot_bytes data)"
    and "trace (snd (save_data_to_txt cfg data dir w))
           = trace w @ (if files w (snapshot_path cfg dir) \<noteq> None then [Unlink (snapshot_path cfg dir)] else [])
               @ [OpenWrite (snapshot_path cfg dir)]"
    and "sheet (snd (save_data_to_txt cfg data dir w)) = sheet w"
    and "outbox (snd (save_data_to_txt cfg data dir w)) = outbox w"
    and "log (snd (save_data_to_txt cfg data dir w))
           = log w @ [(''INFO'', lit ''Data saved to '' @ snapshot_path cfg dir)]"
proof -
  let ?p = "snapshot_path cfg dir"
  let ?w1 = "if files w ?p \<noteq> None then unlink ?p w else w"
  let ?w2 = "open_w ?p ?w1"
  have f2: "files ?w2 ?p = Some []" by (simp add: open_w_def emit_def)
  note wl = write_lines_ok[OF enc f2]
  have "save_data_to_txt cfg data dir w =
      (case write_lines ?p data ?w2 of
         (Inl e, w3) \<Rightarrow> (Inl e, w3)
       | (Inr _, w3) \<Rightarrow> (Inr ?p, logger_info (lit ''Data saved to '' @ ?p) w3))"
    by (simp only: save_data_to_txt_def Let_def snapshot_path_def)
  then have run: "save_data_to_txt cfg data dir w =
      (Inr ?p, logger_info (lit ''Data saved to '' @ ?p) (snd (write_lines ?p data ?w2)))"
    by (simp only: wl) simp
  show "fst (save_data_to_txt cfg data dir w) = Inr ?p" using run by simp
  show "files (snd (save_data_to_txt cfg data dir w)) = (files w)(?p \<mapsto> snapshot_bytes data)"
    unfolding run wl
    by (auto simp: logger_info_def open_w_def unlink_def emit_def snapshot_bytes_def fun_eq_iff)
  show "trace (snd (save_data_to_txt cfg data dir w))
           = trace w @ (if files w ?p \<noteq> None then [Unlink ?p] else []) @ [OpenWrite ?p]"
    unfolding run wl
    by (auto simp: logger_info_def open_w_def unlink_def emit_def)
  show "sheet (snd (save_data_to_txt cfg data dir w)) = sheet w"
    unfolding run wl by (auto simp: logger_info_def open_w_def unlink_def emit_def)
  show "outbox (snd (save_data_to_txt cfg data dir w)) = outbox w"
    unfolding run wl by (auto simp: logger_info_def open_w_def unlink_def emit_def)
  show "log (snd (save_data_to_txt cfg data dir w))
           = log w @ [(''INFO'', lit ''Data saved to '' @ ?p)]"
    unfolding run wl by (auto simp: logger_info_def open_w_def unlink_def emit_def)
qed

lemma save_data_to_txt_Inr:
  assumes "save_data_to_txt cfg data dir w = (Inr p, w')"
  shows "\<forall>vs \<in> set data. \<forall>c \<in> set (join [9] vs @ [10]). encodable c"
proof -
  let ?p = "snapshot_path cfg dir"
  let ?w2 = "open_w ?p (if files w ?p \<noteq> None then unlink ?p w else w)"
  have eq: "save_data_to_txt cfg data dir w =
      (case write_lines ?p data ?w2 of
         (Inl e, w3) \<Rightarrow> (Inl e, w3)
       | (Inr _, w3) \<Rightarrow> (Inr ?p, logger_info (lit ''Data saved to '' @ ?p) w3))"
    by (simp only: save_data_to_txt_def Let_def snapshot_path_def)
  obtain r1 w3 where wl: "write_lines ?p data ?w2 = (r1, w3)" by (cases "write_lines ?p data ?w2")
  with eq assms obtain u where "r1 = Inr u" by (cases r1) auto
  with wl write_lines_Inr show ?thesis by blast
qed

lemma send_email_keeps:
  "send_email_with_attachment env cfg p w = (r, w') \<Longrightarrow> files w' = files w \<and> sheet w' = sheet w"
  unfolding send_email_with_attachment_def
proof (rule retry_call_preserves[where R="\<lambda>a b. files b = files a \<and> sheet b = sheet a"])
  fix w r w' assume "send_email_body env cfg p w = (r, w')"
  then show "files w' = files w \<and> sheet w' = sheet w"
    by (auto simp: send_email_body_def Let_def logger_info_def emit_def split: option.splits)
next
  fix w :: world show "files (sleep 120 w) = files w \<and> sheet (sleep 120 w) = sheet w"
    by (simp add: sleep_def emit_def)
qed auto

lemma sheet_get_Inr:
  "sheet_get env g w = (Inr data, w') \<Longrightarrow>
     data = values_of env (sheet w) g \<and> sheet w' = sheet w \<and> files w' = files w"
  by (auto simp: sheet_get_def emit_def split: option.splits)

text \<open>Claim C4. In a run that completes, the sheet is synchronized with the rows
  collected (clear of \<open>A2:H\<close>, then the batched write, after which the range holds the
  dataset), then the same range is read back, and the snapshot file holds the lines of what
  was read back from the sheet as \<open>update_google_sheet\<close> left it: the snapshot writer is
  given the read-back data, not the rows collected in memory. The read-back is the
  statement that follows the call of \<open>update_google_sheet\<close>, which itself returns
  nothing.\<close>

theorem run_snapshot_is_read_back:
  assumes "run env cfg w = (Inr (), w')"
  shows "\<exists>column w1 all_results w2 w3.
           col_values env COLUMN_INDEX w = (Inr column, w1)
         \<and> fetch_all env (drop 1 column) [] w1 = (Inr all_results, w2)
         \<and> update_google_sheet env all_results w2 = (Inr (), w3)
         \<and> (\<forall>r c. in_range A2_H r c \<longrightarrow> cell (sheet w3) r c = dataset_cell all_results r c)
         \<and> sheet w' = sheet w3
         \<and> files w' (snapshot_path cfg (cwd cfg)) = Some (snapshot_bytes (values_of env (sheet w3) A2_H))"
proof -
  from assms obtain column w1 where c: "col_values env COLUMN_INDEX w = (Inr column, w1)"
    by (auto simp: run_def split: prod.splits sum.splits)
  from assms c obtain all_results w2 where f: "fetch_all env (drop 1 column) [] w1 = (Inr all_results, w2)"
    by (auto simp: run_def split: prod.splits sum.splits)
  from assms c f obtain w3 where u: "update_google_sheet env all_results w2 = (Inr (), w3)"
    by (auto simp: run_def split: prod.splits sum.splits)
  from assms c f u obtain sheet_data w4 where g: "sheet_get env A2_H w3 = (Inr sheet_data, w4)"
    by (auto simp: run_def split: prod.splits sum.splits)
  from assms c f u g obtain p w5 where s: "save_data_to_txt cfg sheet_data (cwd cfg) w4 = (Inr p, w5)"
    by (auto simp: run_def split: prod.splits sum.splits)
  from assms c f u g s have m: "send_email_with_attachment env cfg p w5 = (Inr (), w')"
    by (simp add: run_def)
  from sheet_get_Inr[OF g] have d: "sheet_data = values_of env (sheet w3) A2_H"
    and s4: "sheet w4 = sheet w3" by simp_all
  note enc = save_data_to_txt_Inr[OF s]
  from save_data_to_txt_lines(2,4)[OF enc, of cfg "cwd cfg" w4] s
  have f5: "files w5 (snapshot_path cfg (cwd cfg)) = Some (snapshot_bytes sheet_data)"
    and s5: "sheet w5 = sheet w4" by simp_all
  from send_email_keeps[OF m] have k: "files w' = files w5" "sheet w' = sheet w5" by simp_all
  from update_google_sheet_Inr[OF u]
  have s3: "sheet w3 = foldl apply_update (clear_ranges [A2_H] (sheet w2)) (sheet_updates all_results)"
    and fit: "list_all (fits (sheet w2)) (sheet_updates all_results)" by simp_all
  have cells: "\<forall>r c. in_range A2_H r c \<longrightarrow> cell (sheet w3) r c = dataset_cell all_results r c"
    unfolding s3 by (simp add: synced_cell[OF fit])
  from c f u cells k f5 s5 s4 d show ?thesis by auto
qed

lemma send_email_ok:
  assumes "files w p = Some data" and "smtp env (length (trace w)) = None"
  shows "send_email_with_attachment env cfg p w =
     (Inr (), w\<lparr>outbox := outbox w @ [notification cfg p data],
                 trace := trace w @ [SmtpSession],
                 log := log w @ [(''INFO'', lit ''Email sent successfully'')]\<rparr>)"
proof -
  have "send_email_body env cfg p w =
     (Inr (), w\<lparr>outbox := outbox w @ [notification cfg p data],
                 trace := trace w @ [SmtpSession],
                 log := log w @ [(''INFO'', lit ''Email sent successfully'')]\<rparr>)"
    using assms by (simp add: send_email_body_def Let_def notification_def logger_info_def emit_def)
  then show ?thesis unfolding send_email_with_attachment_def by (rule retry_call_Inr)
qed

lemma sheet_get_ok:
  assumes "api env (length (trace w)) (GetRange g) = None"
  shows "sheet_get env g w = (Inr (values_of env (sheet w) g), w\<lparr>trace := trace w @ [Api (GetRange g)]\<rparr>)"
  using assms by (simp add: sheet_get_def emit_def)

lemma run_completes:
  assumes api_ok: "\<forall>n op. api env n op = None" and smtp_ok: "\<forall>n. smtp env n = None"
      and c: "col_values env COLUMN_INDEX w = (Inr column, w1)"
      and f: "fetch_all env (drop 1 column) [] w1 = (Inr all_results, w2)"
      and fit: "list_all (fits (sheet w2)) (sheet_updates all_results)"
      and enc: "\<forall>vs \<in> set (values_of env (foldl apply_update (clear_ranges [A2_H] (sheet w2))
                                      (sheet_updates all_results)) A2_H).
                  \<forall>c \<in> set (join [9] vs @ [10]). encodable c"
  shows "fst (run env cfg w) = Inr ()"
    and "sheet (snd (run env cfg w))
           = foldl apply_update (clear_ranges [A2_H] (sheet w2)) (sheet_updates all_results)"
    and "files (snd (run env cfg w))
           = (files w2)(snapshot_path cfg (cwd cfg) \<mapsto>
               snapshot_bytes (values_of env (foldl apply_update (clear_ranges [A2_H] (sheet w2))
                                               (sheet_updates all_results)) A2_H))"
    and "outbox (snd (run env cfg w))
           = outbox w2 @ [notification cfg (snapshot_path cfg (cwd cfg))
               (snapshot_bytes (values_of env (foldl apply_update (clear_ranges [A2_H] (sheet w2))
                                                (sheet_updates all_results)) A2_H))]"
    and "trace (snd (run env cfg w))
           = trace w2 @ [Api (BatchClear [A2_H]), Api (BatchUpdate (sheet_updates all_results)),
                         Api (GetRange A2_H)]
               @ (if files w2 (snapshot_path cfg (cwd cfg)) \<noteq> None
                  then [Unlink (snapshot_path cfg (cwd cfg))] else [])
               @ [OpenWrite (snapshot_path cfg (cwd cfg)), SmtpSession]"
proof -
  let ?S = "foldl apply_update (clear_ranges [A2_H] (sheet w2)) (sheet_updates all_results)"
  let ?p = "snapshot_path cfg (cwd cfg)"
  let ?data = "values_of env ?S A2_H"
  define w3 where "w3 = w2\<lparr>sheet := ?S,
      trace := trace w2 @ [Api (BatchClear [A2_H]), Api (BatchUpdate (sheet_updates all_results))],
      log := log w2 @ [(''INFO'', lit ''Sheet updated successfully.'')]\<rparr>"
  define w4 where "w4 = w3\<lparr>trace := trace w3 @ [Api (GetRange A2_H)]\<rparr>"
  define w5 where "w5 = snd (save_data_to_txt cfg ?data (cwd cfg) w4)"
  have u: "update_google_sheet env all_results w2 = (Inr (), w3)"
    unfolding w3_def using api_ok fit by (intro update_google_sheet_ok) simp_all
  have g: "sheet_get env A2_H w3 = (Inr ?data, w4)"
    unfolding w4_def using api_ok sheet_get_ok[of env w3 A2_H] by (simp add: w3_def)
  note sv = save_data_to_txt_lines[OF enc, of cfg "cwd cfg" w4]
  have s: "save_data_to_txt cfg ?data (cwd cfg) w4 = (Inr ?p, w5)"
    unfolding w5_def using sv(1) by (simp add: prod_eq_iff)
  have f5: "files w5 ?p = Some (snapshot_bytes ?data)"
    unfolding w5_def by (simp add: sv(2))
  have w5: "files w5 = (files w4)(?p \<mapsto> snapshot_bytes ?data)"
      "trace w5 = trace w4 @ (if files w4 ?p \<noteq> None then [Unlink ?p] else []) @ [OpenWrite ?p]"
      "sheet w5 = sheet w4" "outbox w5 = outbox w4"
      "log w5 = log w4 @ [(''INFO'', lit ''Data saved to '' @ ?p)]"
    unfolding w5_def by (rule sv(2) sv(3) sv(4) sv(5) sv(6))+
  have m: "send_email_with_attachment env cfg ?p w5 =
     (Inr (), w5\<lparr>outbox := outbox w5 @ [notification cfg ?p (snapshot_bytes ?data)],
                  trace := trace w5 @ [SmtpSession],
                  log := log w5 @ [(''INFO'', lit ''Email sent successfully'')]\<rparr>)"
    using smtp_ok by (intro send_email_ok f5) simp
  have run: "run env cfg w =
     (Inr (), w5\<lparr>outbox := outbox w5 @ [notification cfg ?p (snapshot_bytes ?data)],
                  trace := trace w5 @ [SmtpSession],
                  log := log w5 @ [(''INFO'', lit ''Email sent successfully'')]\<rparr>)"
    by (simp only: run_def c f u g s m prod.case sum.case)
  show "fst (run env cfg w) = Inr ()" by (simp add: run)
  show "sheet (snd (run env cfg w)) = ?S"
    by (simp add: run w5 w4_def w3_def)
  show "files (snd (run env cfg w)) = (files w2)(?p \<mapsto> snapshot_bytes ?data)"
    by (simp add: run w5 w4_def w3_def)
  show "outbox (snd (run env cfg w))
           = outbox w2 @ [notification cfg ?p (snapshot_bytes ?data)]"
    by (simp add: run w5 w4_def w3_def)
  show "trace (snd (run env cfg w))
           = trace w2 @ [Api (BatchClear [A2_H]), Api (BatchUpdate (sheet_updates all_results)),
                         Api (GetRange A2_H)]
               @ (if files w2 ?p \<noteq> None then [Unlink ?p] else [])
               @ [OpenWrite ?p, SmtpSession]"
    by (simp add: run w5 w4_def w3_def)
qed

lemma strip_trailing_all: "\<forall>x \<in> set xs. P x \<Longrightarrow> strip_trailing P xs = []"
  by (simp add: strip_trailing_def dropWhile_eq_Nil_conv)

lemma range_values_blank:
  assumes "\<forall>r c. in_range A2_H r c \<longrightarrow> cell s r c = []"
  shows "range_values s A2_H = []"
proof -
  have "strip_trailing (\<lambda>v. v = []) (map (cell s r) [first_col A2_H ..< Suc (last_col A2_H)]) = []"
    if "2 \<le> r" for r
    using assms that by (intro strip_trailing_all) (auto simp: in_range_def A2_H_def)
  then show ?thesis
    unfolding range_values_def by (intro strip_trailing_all) (auto simp: A2_H_def)
qed

lemma snapshot_bytes_empty_rows:
  "snapshot_bytes (empty_rows v) = (case v of NoRows \<Rightarrow> [] | OneEmptyRow \<Rightarrow> [255, 254, 10, 0])"
  by (cases v)
    (simp_all add: snapshot_bytes_def snapshot_text_def BOM_UTF16_LE_def
      utf_16_le_bytes_def utf16_units_def le_bytes_def)

lemma run_no_rows:
  assumes "\<forall>n op. api env n op = None" and "\<forall>n. smtp env n = None"
      and "col_values env COLUMN_INDEX w = (Inr column, w1)"
      and "fetch_all env (drop 1 column) [] w1 = (Inr [], w2)"
  shows "fst (run env cfg w) = Inr ()"
    and "\<forall>r c. in_range A2_H r c \<longrightarrow> cell (sheet (snd (run env cfg w))) r c = []"
    and "files (snd (run env cfg w)) (snapshot_path cfg (cwd cfg))
           = Some (case no_values env of NoRows \<Rightarrow> [] | OneEmptyRow \<Rightarrow> [255, 254, 10, 0])"
    and "outbox (snd (run env cfg w))
           = outbox w @ [notification cfg (snapshot_path cfg (cwd cfg))
               (case no_values env of NoRows \<Rightarrow> [] | OneEmptyRow \<Rightarrow> [255, 254, 10, 0])]"
    and "trace (snd (run env cfg w))
           = trace w2 @ [Api (BatchClear [A2_H]), Api (BatchUpdate []), Api (GetRange A2_H)]
               @ (if files w (snapshot_path cfg (cwd cfg)) \<noteq> None
                  then [Unlink (snapshot_path cfg (cwd cfg))] else [])
               @ [OpenWrite (snapshot_path cfg (cwd cfg)), SmtpSession]"
proof -
  let ?S = "foldl apply_update (clear_ranges [A2_H] (sheet w2)) (sheet_updates [])"
  have S: "?S = clear_ranges [A2_H] (sheet w2)" by (simp add: sheet_updates_def)
  have blank: "\<forall>r c. in_range A2_H r c \<longrightarrow> cell ?S r c = []"
    unfolding S by (simp add: cell_clear_A2H)
  have data: "values_of env ?S A2_H = empty_rows (no_values env)"
    by (simp add: values_of_def range_values_blank[OF blank])
  have fit: "list_all (fits (sheet w2)) (sheet_updates [])" by (simp add: sheet_updates_def)
  have enc: "\<forall>vs \<in> set (values_of env ?S A2_H). \<forall>c \<in> set (join [9] vs @ [10]). encodable c"
    unfolding data by (cases "no_values env") (simp_all add: encodable_def)
  have "fetch_only w w2"
    using col_values_only[OF assms(3)] fetch_all_only[OF assms(4)] by (rule fetch_only_trans)
  then have same: "files w2 = files w" "outbox w2 = outbox w" by (simp_all add: fetch_only_def)
  note r = run_completes[OF assms(1,2,3,4) fit enc, of cfg]
  show "fst (run env cfg w) = Inr ()" by (rule r(1))
  show "\<forall>r c. in_range A2_H r c \<longrightarrow> cell (sheet (snd (run env cfg w))) r c = []"
    unfolding r(2) by (rule blank)
  show "files (snd (run env cfg w)) (snapshot_path cfg (cwd cfg))
           = Some (case no_values env of NoRows \<Rightarrow> [] | OneEmptyRow \<Rightarrow> [255, 254, 10, 0])"
    unfolding r(3) data by (simp add: snapshot_bytes_empty_rows)
  show "outbox (snd (run env cfg w))
           = outbox w @ [notification cfg (snapshot_path cfg (cwd cfg))
               (case no_values env of NoRows \<Rightarrow> [] | OneEmptyRow \<Rightarrow> [255, 254, 10, 0])]"
    unfolding r(4) data by (simp add: snapshot_bytes_empty_rows same)
  show "trace (snd (run env cfg w))
           = trace w2 @ [Api (BatchClear [A2_H]), Api (BatchUpdate []), Api (GetRange A2_H)]
               @ (if files w (snapshot_path cfg (cwd cfg)) \<noteq> None
                  then [Unlink (snapshot_path cfg (cwd cfg))] else [])
               @ [OpenWrite (snapshot_path cfg (cwd cfg)), SmtpSession]"
    unfolding r(5) by (simp add: same sheet_updates_def)
qed

text \<open>Claim C10, as the code has it. When no rows are collected (no URL in the list, or
  only filler programs in the feeds) and the spreadsheet service and the mail relay serve
  their requests, the run completes: the range \<open>A2:H\<close> is cleared and stays empty (the
  update request carries no entry), the snapshot file is created (after the file of that
  name, if there was one, has been removed), and the mail is sent with that file and the
  log attached. What the file holds is what \<open>get\<close> returns for the empty range, written
  as lines: with gspread 6.x, which returns \<open>[[]]\<close>, one empty line, that is the byte
  order mark and a line feed; no line and no byte only with a release that returns
  \<open>[]\<close>.\<close>

theorem run_with_empty_dataset:
  assumes "\<forall>n op. api env n op = None" and "\<forall>n. smtp env n = None"
      and "col_values env COLUMN_INDEX w = (Inr column, w1)"
      and "fetch_all env (drop 1 column) [] w1 = (Inr [], w2)"
  shows "fst (run env cfg w) = Inr ()
       \<and> (\<forall>r c. in_range A2_H r c \<longrightarrow> cell (sheet (snd (run env cfg w))) r c = [])
       \<and> files (snd (run env cfg w)) (snapshot_path cfg (cwd cfg))
           = Some (case no_values env of NoRows \<Rightarrow> [] | OneEmptyRow \<Rightarrow> [255, 254, 10, 0])
       \<and> outbox (snd (run env cfg w))
           = outbox w @ [notification cfg (snapshot_path cfg (cwd cfg))
               (case no_values env of NoRows \<Rightarrow> [] | OneEmptyRow \<Rightarrow> [255, 254, 10, 0])]
       \<and> trace (snd (run env cfg w))
           = trace w2 @ [Api (BatchClear [A2_H]), Api (BatchUpdate []), Api (GetRange A2_H)]
               @ (if files w (snapshot_path cfg (cwd cfg)) \<noteq> None
                  then [Unlink (snapshot_path cfg (cwd cfg))] else [])
               @ [OpenWrite (snapshot_path cfg (cwd cfg)), SmtpSession]"
  using run_no_rows[OF assms, of cfg] by (intro conjI)

lemma fetch_url_ok:
  assumes "http env (length (trace w)) url = Inr response"
  shows "fetch_url env url w =
     (Inr response, w\<lparr>trace := trace w @ [HttpGet url],
                       log := log w @ [(''INFO'', lit ''Processing URL: '' @ url)]\<rparr>)"
proof -
  have "fetch_url_body env url w =
     (Inr response, w\<lparr>trace := trace w @ [HttpGet url],
                       log := log w @ [(''INFO'', lit ''Processing URL: '' @ url)]\<rparr>)"
    using assms by (simp add: fetch_url_body_def requests_get_def logger_info_def emit_def)
  then show ?thesis unfolding fetch_url_def by (rule retry_call_Inr)
qed

lemma parse_xml_content_eq:
  assumes "\<forall>rec \<in> set (findall (lit ''prrecord'') root). has_title rec"
  shows "fst (parse_xml_content (Document root) w) =
      Inr (map row_of (filter (\<lambda>r. \<not> is_filler r) (findall (lit ''prrecord'') root)))"
  using parse_records_eq[OF assms] by (simp add: parse_xml_content_def Let_def)

lemma fetch_all_one:
  assumes "url \<noteq> []" and "http env (length (trace w)) url = Inr response"
      and "fst (parse_xml_content (content response)
             (w\<lparr>trace := trace w @ [HttpGet url],
                 log := log w @ [(''INFO'', lit ''Processing URL: '' @ url)]\<rparr>)) = Inr rows"
  shows "fst (fetch_all env [url] [] w) = Inr rows"
proof -
  let ?w1 = "w\<lparr>trace := trace w @ [HttpGet url], log := log w @ [(''INFO'', lit ''Processing URL: '' @ url)]\<rparr>"
  obtain r2 w2 where p: "parse_xml_content (content response) ?w1 = (r2, w2)"
    by (cases "parse_xml_content (content response) ?w1")
  with assms(3) have "r2 = Inr rows" by simp
  with p fetch_url_ok[OF assms(2)] assms(1) show ?thesis by simp
qed

lemma example_feed_rows:
  "map row_of (filter (\<lambda>r. \<not> is_filler r) (findall (lit ''prrecord'') example_feed)) = example_rows"
  using parse_xml_content_eq[OF example_has_title, of example_world] example_parse_rows by simp

lemma filler_feed_rows:
  "(\<forall>rec \<in> set (findall (lit ''prrecord'') filler_feed). has_title rec)
   \<and> map row_of (filter (\<lambda>r. \<not> is_filler r) (findall (lit ''prrecord'') filler_feed)) = []"
  by (simp add: filler_feed_def has_title_def is_filler_def title_of_def findall_def find_first_def
      lit_def leaf_def)

lemma stale_fetch_all_ok:
  "fst (fetch_all ok_env (drop 1 [lit ''URLs'', lit ''http://a'']) [] (emit (Api (ColValues 13)) stale_world))
     = Inr example_rows"
proof -
  have "fst (fetch_all ok_env [lit ''http://a''] [] (emit (Api (ColValues 13)) stale_world)) = Inr example_rows"
  proof (rule fetch_all_one)
    show "lit ''http://a'' \<noteq> []" by (simp add: lit_def)
    show "http ok_env (length (trace (emit (Api (ColValues 13)) stale_world))) (lit ''http://a'')
        = Inr \<lparr>status_code = 200, content = Document example_feed\<rparr>"
      by (simp add: http_colon sample_urls ok_env_def)
    show "fst (parse_xml_content (content \<lparr>status_code = 200, content = Document example_feed\<rparr>)
         ((emit (Api (ColValues 13)) stale_world)
            \<lparr>trace := trace (emit (Api (ColValues 13)) stale_world) @ [HttpGet (lit ''http://a'')],
              log := log (emit (Api (ColValues 13)) stale_world)
                       @ [(''INFO'', lit ''Processing URL: '' @ lit ''http://a'')]\<rparr>)) = Inr example_rows"
      using parse_xml_content_eq[OF example_has_title] by (simp add: example_feed_rows)
  qed
  then show ?thesis by simp
qed

lemma stale_col_values_ok:
  "col_values ok_env COLUMN_INDEX stale_world =
     (Inr [lit ''URLs'', lit ''http://a''], emit (Api (ColValues 13)) stale_world)"
proof -
  have "api ok_env (length (trace stale_world)) (ColValues 13) = None"
    by (simp add: ok_env_def)
  from col_values_served[OF this] show ?thesis
    by (simp only: COLUMN_INDEX_def stale_column)
qed

lemma stale_read_back:
  assumes "sheet w2 = sheet stale_world"
  shows "range_values (foldl apply_update (clear_ranges [A2_H] (sheet w2)) (sheet_updates example_rows)) A2_H
     = read_back_rows"
proof -
  define S where "S = foldl apply_update (clear_ranges [A2_H] (sheet w2)) (sheet_updates example_rows)"
  have fit: "list_all (fits (sheet w2)) (sheet_updates example_rows)"
    by (rule example_rows_fit) (simp add: assms stale_world_def)
  have cellS: "cell S r c = (if in_range A2_H r c then dataset_cell example_rows r c else cell (sheet w2) r c)"
    for r c unfolding S_def by (rule synced_cell[OF fit])
  have rc: "row_count S = 4"
    unfolding S_def by (simp add: row_count_foldl_updates row_count_clear assms stale_world_def)
  have "range_values S A2_H = read_back_rows"
    by (simp add: range_values_def A2_H_def rc upt_conv_Cons cellS in_range_def dataset_cell_def
        example_rows_def strip_trailing_def read_back_rows_def lit_def)
  then show ?thesis by (simp add: S_def)
qed

lemma read_back_rows_encodable:
  "\<forall>vs \<in> set read_back_rows. \<forall>c \<in> set (join [9] vs @ [10]). encodable c"
  by (simp add: read_back_rows_def lit_def encodable_def)

lemma ok_env_served: "\<forall>n op. api ok_env n op = None" "\<forall>n. smtp ok_env n = None"
  by (simp_all add: ok_env_def)

lemma recent_env_served: "\<forall>n op. api recent_env n op = None" "\<forall>n. smtp recent_env n = None"
  by (simp_all add: recent_env_def ok_env_def)

lemma filler_env_served: "\<forall>n op. api filler_env n op = None" "\<forall>n. smtp filler_env n = None"
  by (simp_all add: filler_env_def)

lemma example_snapshot_path:
  "snapshot_path example_config (cwd example_config) = lit ''/work/TVPPol_output_20240101.txt''"
  by (simp add: snapshot_path_def path_join_def example_config_def lit_def)

theorem run_snapshot_is_read_back_witness:
  "(\<exists>column w1 all_results w2 w3.
           col_values ok_env COLUMN_INDEX stale_world = (Inr column, w1)
         \<and> fetch_all ok_env (drop 1 column) [] w1 = (Inr all_results, w2)
         \<and> update_google_sheet ok_env all_results w2 = (Inr (), w3)
         \<and> (\<forall>r c. in_range A2_H r c \<longrightarrow> cell (sheet w3) r c = dataset_cell all_results r c)
         \<and> sheet (snd (run ok_env example_config stale_world)) = sheet w3
         \<and> files (snd (run ok_env example_config stale_world))
              (snapshot_path example_config (cwd example_config))
             = Some (snapshot_bytes (values_of ok_env (sheet w3) A2_H)))
   \<and> fst (fetch_all ok_env (drop 1 [lit ''URLs'', lit ''http://a'']) []
             (emit (Api (ColValues 13)) stale_world)) = Inr example_rows
   \<and> range_values (sheet (snd (run ok_env example_config stale_world))) A2_H = read_back_rows
   \<and> files (snd (run ok_env example_config stale_world)) (lit ''/work/TVPPol_output_20240101.txt'')
       = Some (snapshot_bytes read_back_rows)"
proof -
  let ?w1 = "emit (Api (ColValues 13)) stale_world"
  obtain w2 where f: "fetch_all ok_env (drop 1 [lit ''URLs'', lit ''http://a'']) [] ?w1 = (Inr example_rows, w2)"
    using stale_fetch_all_ok by (metis prod.collapse)
  have "fetch_only ?w1 w2" by (rule fetch_all_only[OF f])
  then have s2: "sheet w2 = sheet stale_world" by (simp add: fetch_only_def emit_def)
  have fit: "list_all (fits (sheet w2)) (sheet_updates example_rows)"
    by (rule example_rows_fit) (simp add: s2 stale_world_def)
  note rb = stale_read_back[OF s2]
  have rv: "values_of ok_env (foldl apply_update (clear_ranges [A2_H] (sheet w2))
                                (sheet_updates example_rows)) A2_H = read_back_rows"
    by (simp add: values_of_def rb read_back_rows_def)
  have enc: "\<forall>vs \<in> set (values_of ok_env (foldl apply_update (clear_ranges [A2_H] (sheet w2))
                                      (sheet_updates example_rows)) A2_H).
                  \<forall>c \<in> set (join [9] vs @ [10]). encodable c"
    unfolding rv by (rule read_back_rows_encodable)
  note r = run_completes[OF ok_env_served stale_col_values_ok f fit enc, of example_config]
  have ok: "run ok_env example_config stale_world = (Inr (), snd (run ok_env example_config stale_world))"
    using r(1) by (simp add: prod_eq_iff)
  note main = run_snapshot_is_read_back[OF ok]
  have "range_values (sheet (snd (run ok_env example_config stale_world))) A2_H = read_back_rows"
    unfolding r(2) by (rule rb)
  moreover have "files (snd (run ok_env example_config stale_world)) (lit ''/work/TVPPol_output_20240101.txt'')
       = Some (snapshot_bytes read_back_rows)"
    unfolding r(3) rv by (simp add: example_snapshot_path)
  ultimately show ?thesis using main stale_fetch_all_ok by (intro conjI)
qed

lemma rerun_column:
  "strip_trailing (\<lambda>v. v = []) (map (\<lambda>r. cell (sheet rerun_world) r 13) [1 ..< Suc (row_count (sheet rerun_world))])
     = [lit ''URLs'']"
  by (simp add: rerun_world_def strip_trailing_def upt_conv_Cons lit_def)

lemma rerun_col_values:
  "col_values ok_env COLUMN_INDEX rerun_world = (Inr [lit ''URLs''], emit (Api (ColValues 13)) rerun_world)"
proof -
  have "api ok_env (length (trace rerun_world)) (ColValues 13) = None"
    by (simp add: ok_env_def)
  from col_values_served[OF this] show ?thesis
    by (simp only: COLUMN_INDEX_def rerun_column)
qed

lemma stale_col_values_filler:
  "col_values filler_env COLUMN_INDEX stale_world =
     (Inr [lit ''URLs'', lit ''http://a''], emit (Api (ColValues 13)) stale_world)"
proof -
  have "api filler_env (length (trace stale_world)) (ColValues 13) = None"
    by (simp add: filler_env_def)
  from col_values_served[OF this] show ?thesis
    by (simp only: COLUMN_INDEX_def stale_column)
qed

lemma stale_fetch_all_filler:
  "fst (fetch_all filler_env (drop 1 [lit ''URLs'', lit ''http://a'']) [] (emit (Api (ColValues 13)) stale_world))
     = Inr []"
proof -
  have "fst (fetch_all filler_env [lit ''http://a''] [] (emit (Api (ColValues 13)) stale_world)) = Inr []"
  proof (rule fetch_all_one)
    show "lit ''http://a'' \<noteq> []" by (simp add: lit_def)
    show "http filler_env (length (trace (emit (Api (ColValues 13)) stale_world))) (lit ''http://a'')
        = Inr \<lparr>status_code = 200, content = Document filler_feed\<rparr>"
      by (simp add: http_colon sample_urls filler_env_def)
    show "fst (parse_xml_content (content \<lparr>status_code = 200, content = Document filler_feed\<rparr>)
         ((emit (Api (ColValues 13)) stale_world)
            \<lparr>trace := trace (emit (Api (ColValues 13)) stale_world) @ [HttpGet (lit ''http://a'')],
              log := log (emit (Api (ColValues 13)) stale_world)
                       @ [(''INFO'', lit ''Processing URL: '' @ lit ''http://a'')]\<rparr>)) = Inr []"
      using filler_feed_rows parse_xml_content_eq[of filler_feed] by simp
  qed
  then show ?thesis by simp
qed

lemma recent_col_values:
  "col_values recent_env COLUMN_INDEX rerun_world = (Inr [lit ''URLs''], emit (Api (ColValues 13)) rerun_world)"
proof -
  have "api recent_env (length (trace rerun_world)) (ColValues 13) = None"
    by (simp add: recent_env_def ok_env_def)
  from col_values_served[OF this] show ?thesis
    by (simp only: COLUMN_INDEX_def rerun_column)
qed

theorem run_with_empty_dataset_witness:
  "fst (run ok_env example_config rerun_world) = Inr ()
   \<and> cell (sheet (snd (run ok_env example_config rerun_world))) 4 8 = []
   \<and> files (snd (run ok_env example_config rerun_world)) (lit ''/work/TVPPol_output_20240101.txt'')
       = Some []
   \<and> outbox (snd (run ok_env example_config rerun_world))
       = [notification example_config (lit ''/work/TVPPol_output_20240101.txt'') []]
   \<and> trace (snd (run ok_env example_config rerun_world))
       = [Api (ColValues 13), Api (BatchClear [A2_H]), Api (BatchUpdate []), Api (GetRange A2_H),
          Unlink (lit ''/work/TVPPol_output_20240101.txt''),
          OpenWrite (lit ''/work/TVPPol_output_20240101.txt''), SmtpSession]
   \<and> fst (run filler_env example_config stale_world) = Inr ()
   \<and> cell (sheet (snd (run filler_env example_config stale_world))) 4 8 = []
   \<and> files (snd (run filler_env example_config stale_world)) (lit ''/work/TVPPol_output_20240101.txt'')
       = Some []
   \<and> fst (run recent_env example_config rerun_world) = Inr ()
   \<and> cell (sheet (snd (run recent_env example_config rerun_world))) 4 8 = []
   \<and> outbox (snd (run recent_env example_config rerun_world))
       = [notification example_config (lit ''/work/TVPPol_output_20240101.txt'') [255, 254, 10, 0]]"
proof -
  let ?w1 = "emit (Api (ColValues 13)) rerun_world"
  have f: "fetch_all ok_env (drop 1 [lit ''URLs'']) [] ?w1 = (Inr [], ?w1)" by simp
  note a = run_with_empty_dataset[OF ok_env_served rerun_col_values f, of example_config,
      unfolded example_snapshot_path]
  have there: "files rerun_world (lit ''/work/TVPPol_output_20240101.txt'') \<noteq> None"
    by (simp add: rerun_world_def)
  have in48: "in_range A2_H 4 8" by (simp add: in_range_def A2_H_def)
  let ?v1 = "emit (Api (ColValues 13)) stale_world"
  obtain v2 where g: "fetch_all filler_env (drop 1 [lit ''URLs'', lit ''http://a'']) [] ?v1 = (Inr [], v2)"
    using stale_fetch_all_filler by (metis prod.collapse)
  note b = run_with_empty_dataset[OF filler_env_served stale_col_values_filler g, of example_config,
      unfolded example_snapshot_path]
  have h: "fetch_all recent_env (drop 1 [lit ''URLs'']) [] ?w1 = (Inr [], ?w1)" by simp
  note c = run_with_empty_dataset[OF recent_env_served recent_col_values h, of example_config,
      unfolded example_snapshot_path]
  have nv: "no_values ok_env = NoRows" "no_values filler_env = NoRows"
      "no_values recent_env = OneEmptyRow"
    by (simp_all add: ok_env_def filler_env_def recent_env_def)
  from a in48 have a2: "cell (sheet (snd (run ok_env example_config rerun_world))) 4 8 = []" by blast
  from b in48 have b2: "cell (sheet (snd (run filler_env example_config stale_world))) 4 8 = []" by blast
  from c in48 have c2: "cell (sheet (snd (run recent_env example_config rerun_world))) 4 8 = []" by blast
  from a have a3: "files (snd (run ok_env example_config rerun_world)) (lit ''/work/TVPPol_output_20240101.txt'')
       = Some []"
    by (simp add: nv)
  from b have b3: "files (snd (run filler_env example_config stale_world)) (lit ''/work/TVPPol_output_20240101.txt'')
       = Some []"
    by (simp add: nv)
  from a there have a5: "trace (snd (run ok_env example_config rerun_world))
       = [Api (ColValues 13), Api (BatchClear [A2_H]), Api (BatchUpdate []), Api (GetRange A2_H),
          Unlink (lit ''/work/TVPPol_output_20240101.txt''),
          OpenWrite (lit ''/work/TVPPol_output_20240101.txt''), SmtpSession]"
    by (simp add: emit_def rerun_world_def)
  from a have a4: "outbox (snd (run ok_env example_config rerun_world))
       = [notification example_config (lit ''/work/TVPPol_output_20240101.txt'') []]"
    by (simp add: nv rerun_world_def)
  from c have c4: "outbox (snd (run recent_env example_config rerun_world))
       = [notification example_config (lit ''/work/TVPPol_output_20240101.txt'') [255, 254, 10, 0]]"
    by (simp add: nv rerun_world_def)
  from a b c a2 b2 c2 a3 b3 a4 c4 a5 show ?thesis by (intro conjI) blast+
qed

text \<open>With gspread 6.x and no URL in the list, the snapshot is not a file of zero lines:
  it holds the byte order mark and one line feed, an empty line.\<close>

theorem run_with_empty_dataset_counterexample:
  "fst (run recent_env example_config rerun_world) = Inr ()
   \<and> files (snd (run recent_env example_config rerun_world)) (lit ''/work/TVPPol_output_20240101.txt'')
       = Some [255, 254, 10, 0]
   \<and> files (snd (run recent_env example_config rerun_world)) (lit ''/work/TVPPol_output_20240101.txt'')
       \<noteq> Some []"
proof -
  let ?w1 = "emit (Api (ColValues 13)) rerun_world"
  have h: "fetch_all recent_env (drop 1 [lit ''URLs'']) [] ?w1 = (Inr [], ?w1)" by simp
  note c = run_no_rows[OF recent_env_served recent_col_values h, of example_config,
      unfolded example_snapshot_path]
  have nv: "no_values recent_env = OneEmptyRow" by (simp add: recent_env_def)
  from c(3) have snap: "files (snd (run recent_env example_config rerun_world))
      (lit ''/work/TVPPol_output_20240101.txt'') = Some [255, 254, 10, 0]"
    by (simp add: nv)
  with c(1) snap show ?thesis by simp
qed

end
